theory Spec2Isabelle
  imports Main
begin

section \<open>The details service of instana-tracing-go\<close>

text \<open>
  A shallow embedding of \<^verbatim>\<open>details-instrumented.go\<close>. Go strings are byte sequences and
  are modelled as \<^typ>\<open>string\<close>; Go's \<^verbatim>\<open>int\<close> is taken to be 64 bits wide (the size on the
  amd64 and arm64 targets the service is built for) and is modelled as \<^typ>\<open>int\<close> with the
  range checks of the standard library written out. A run-time panic is a value of type
  \<open>panic\<close> on the left of a sum.
\<close>

subsection \<open>Bytes\<close>

definition byte :: "char \<Rightarrow> nat" where
  "byte c = of_char c"

definition isDigit :: "char \<Rightarrow> bool" where
  "isDigit c \<longleftrightarrow> 48 \<le> byte c \<and> byte c \<le> 57"

definition digitVal :: "char \<Rightarrow> nat" where
  "digitVal c = byte c - 48"

subsection \<open>strconv.Atoi\<close>

text \<open>
  The standard library's \<^verbatim>\<open>strconv.Atoi\<close>, for a 64-bit \<^verbatim>\<open>int\<close>. It returns a value and an
  error; both are kept because the program uses the value after discarding the error
  (line 179). Strings of 1 to 18 bytes take the fast path, every other string goes through
  \<^verbatim>\<open>ParseInt(s, 10, 0)\<close> and \<^verbatim>\<open>ParseUint\<close>, whose loop reports a range error as soon as the
  accumulated value leaves 64 bits, before it has looked at the remaining bytes.
\<close>

datatype NumError = ErrSyntax | ErrRange

text \<open>The fast path's loop: \<^verbatim>\<open>ch -= '0'\<close> wraps around in a byte, \<^verbatim>\<open>ch > 9\<close> is a syntax error.\<close>

fun atoiFastLoop :: "int \<Rightarrow> string \<Rightarrow> int option" where
  "atoiFastLoop n [] = Some n"
| "atoiFastLoop n (ch # s) =
     (let d = (byte ch + 256 - 48) mod 256
      in if d > 9 then None else atoiFastLoop (n * 10 + int d) s)"

definition atoiFast :: "string \<Rightarrow> int \<times> NumError option" where
  "atoiFast s0 =
     (case s0 of
        [] \<Rightarrow> (0, Some ErrSyntax)
      | c # rest \<Rightarrow>
          let signed = (c = CHR ''-'' \<or> c = CHR ''+'');
              s = (if signed then rest else s0)
          in if signed \<and> length s < 1 then (0, Some ErrSyntax)
             else (case atoiFastLoop 0 s of
                     None \<Rightarrow> (0, Some ErrSyntax)
                   | Some n \<Rightarrow> (if c = CHR ''-'' then - n else n, None)))"

definition maxUint64 :: nat where
  "maxUint64 = 2 ^ 64 - 1"

text \<open>
  \<^verbatim>\<open>ParseUint\<close> in base 10 with \<^verbatim>\<open>bitSize\<close> 64: \<^verbatim>\<open>cutoff = maxUint64/10 + 1\<close>, the product
  \<^verbatim>\<open>n * 10\<close> is computed below the cutoff only, and the sum \<^verbatim>\<open>n1 = n + d\<close> is a 64-bit
  addition whose wrap-around is detected by \<^verbatim>\<open>n1 < n\<close>. A byte that is not a decimal digit
  (a letter is a digit of value 10 or more, which base 10 refuses) is a syntax error.
\<close>

fun parseUintLoop :: "nat \<Rightarrow> string \<Rightarrow> nat \<times> NumError option" where
  "parseUintLoop n [] = (n, None)"
| "parseUintLoop n (c # s) =
     (if 48 \<le> byte c \<and> byte c \<le> 57 then
        (let d = byte c - 48 in
         if n \<ge> maxUint64 div 10 + 1 then (maxUint64, Some ErrRange)
         else
           (let n10 = n * 10;
                n1 = (n10 + d) mod 2 ^ 64
            in if n1 < n10 \<or> n1 > maxUint64 then (maxUint64, Some ErrRange)
               else parseUintLoop n1 s))
      else (0, Some ErrSyntax))"

definition ParseUint :: "string \<Rightarrow> nat \<times> NumError option" where
  "ParseUint s = (if s = [] then (0, Some ErrSyntax) else parseUintLoop 0 s)"

definition ParseInt :: "string \<Rightarrow> int \<times> NumError option" where
  "ParseInt s0 =
     (case s0 of
        [] \<Rightarrow> (0, Some ErrSyntax)
      | c # rest \<Rightarrow>
          let neg = (c = CHR ''-'');
              s = (if c = CHR ''+'' \<or> c = CHR ''-'' then rest else s0)
          in (case ParseUint s of
                (un, Some ErrSyntax) \<Rightarrow> (0, Some ErrSyntax)
              | (un, _) \<Rightarrow>
                  let cutoff = (2 ^ 63 :: nat)
                  in if \<not> neg \<and> un \<ge> cutoff then (int cutoff - 1, Some ErrRange)
                     else if neg \<and> un > cutoff then (- int cutoff, Some ErrRange)
                     else (if neg then - int un else int un, None)))"

definition Atoi :: "string \<Rightarrow> int \<times> NumError option" where
  "Atoi s = (if 0 < length s \<and> length s < 19 then atoiFast s else ParseInt s)"

subsection \<open>net/http headers\<close>

text \<open>
  \<^verbatim>\<open>http.Header\<close> is a Go map from header names to lists of values. Its methods
  \<^verbatim>\<open>Values\<close> and \<^verbatim>\<open>Add\<close> canonicalise the key they are given
  (\<^verbatim>\<open>textproto.CanonicalMIMEHeaderKey\<close>) before they touch the map; indexing the map
  directly, as \<^verbatim>\<open>header[item] = values\<close> on line 198 does, uses the key as it is.
\<close>

type_synonym Header = "string \<rightharpoonup> string list"

text \<open>The token bytes of RFC 7230: letters, digits and \<^verbatim>\<open>!#$%&'*+-.^_`|~\<close>.\<close>

definition validHeaderFieldByte :: "char \<Rightarrow> bool" where
  "validHeaderFieldByte c \<longleftrightarrow>
     (65 \<le> byte c \<and> byte c \<le> 90) \<or> (97 \<le> byte c \<and> byte c \<le> 122) \<or>
     (48 \<le> byte c \<and> byte c \<le> 57) \<or>
     byte c \<in> {33, 35, 36, 37, 38, 39, 42, 43, 45, 46, 94, 95, 96, 124, 126}"

text \<open>
  The canonicalising loop: the first letter and every letter after a dash in upper case,
  every other letter in lower case.
\<close>

fun canonLoop :: "bool \<Rightarrow> string \<Rightarrow> string" where
  "canonLoop upper [] = []"
| "canonLoop upper (c # a) =
     (let c' = (if upper \<and> 97 \<le> byte c \<and> byte c \<le> 122 then char_of (byte c - 32)
                else if \<not> upper \<and> 65 \<le> byte c \<and> byte c \<le> 90 then char_of (byte c + 32)
                else c)
      in c' # canonLoop (c' = CHR ''-'') a)"

text \<open>
  A key with a byte that is not a token byte is returned unchanged; every other key is
  canonicalised (the library's first loop only looks for a reason to copy the string, and
  returns it as it is when it is canonical already).
\<close>

definition CanonicalMIMEHeaderKey :: "string \<Rightarrow> string" where
  "CanonicalMIMEHeaderKey s = (if list_all validHeaderFieldByte s then canonLoop True s else s)"

definition Header_Values :: "Header \<Rightarrow> string \<Rightarrow> string list" where
  "Header_Values h key = (case h (CanonicalMIMEHeaderKey key) of None \<Rightarrow> [] | Some vs \<Rightarrow> vs)"

definition Header_Add :: "Header \<Rightarrow> string \<Rightarrow> string \<Rightarrow> Header" where
  "Header_Add h key v =
     (let k = CanonicalMIMEHeaderKey key
      in h(k \<mapsto> (case h k of None \<Rightarrow> [] | Some vs \<Rightarrow> vs) @ [v]))"

text \<open>
  The header map of an inbound request, as the server builds it from the header lines on
  the wire: every line is added under its canonicalised name, in the order of arrival.
\<close>

definition inboundHeader :: "(string \<times> string) list \<Rightarrow> Header" where
  "inboundHeader lines = foldl (\<lambda>h (k, v). Header_Add h k v) Map.empty lines"

text \<open>Lower case of an ASCII letter; every other byte is left as it is.\<close>

definition toLower :: "char \<Rightarrow> char" where
  "toLower c = (if 65 \<le> byte c \<and> byte c \<le> 90 then char_of (byte c + 32) else c)"

text \<open>The values of the lines whose name is \<open>name\<close> up to the case of ASCII letters.\<close>

definition wireValues :: "(string \<times> string) list \<Rightarrow> string \<Rightarrow> string list" where
  "wireValues lines name = map snd (filter (\<lambda>kv. map toLower (fst kv) = name) lines)"

subsection \<open>The program's data\<close>

definition incomingHeaders :: "string list" where
  "incomingHeaders =
     [''x-request-id'',
      ''x-ot-span-context'',
      ''x-datadog-trace-id'',
      ''x-datadog-parent-id'',
      ''x-datadog-sampling-priority'',
      ''traceparent'',
      ''tracestate'',
      ''x-cloud-trace-context'',
      ''grpc-trace-bin'',
      ''x-b3-traceid'',
      ''x-b3-spanid'',
      ''x-b3-parentspanid'',
      ''x-b3-sampled'',
      ''x-b3-flags'',
      ''end-user'',
      ''user-agent'']"

text \<open>The field \<^verbatim>\<open>Id\<close> is \<open>Id_details\<close> here (\<open>Id\<close> is the identity relation of HOL).\<close>

record Details =
  Id_details :: int
  Author :: string
  Year :: int
  Type :: string
  Pages :: int
  Publisher :: string
  Language :: string
  ISBN_10 :: string
  ISBN_13 :: string

text \<open>\<^verbatim>\<open>&Details{}\<close>: every field at its zero value.\<close>

definition zeroDetails :: Details where
  "zeroDetails =
     \<lparr>Id_details = 0, Author = [], Year = 0, Type = [], Pages = 0, Publisher = [],
      Language = [], ISBN_10 = [], ISBN_13 = []\<rparr>"

text \<open>
  The anonymous struct \<^verbatim>\<open>rec\<close> that the upstream answer is decoded into (lines 148 to 163).
  Field names shared with \<open>Details\<close> carry a suffix.
\<close>

record IndustryIdentifier =
  Type_ii :: string
  Identifier :: string

record VolumeInfo =
  Language_vi :: string
  PrintType :: string
  Authors :: "string list"
  Publisher_vi :: string
  PageCount :: int
  PublishedDate :: string
  IndustryIdentifiers :: "IndustryIdentifier list"

record Item =
  VolumeInfo :: VolumeInfo

record Rec =
  Items :: "Item list"

record Request =
  URL_Path :: string
  Header :: Header

subsection \<open>The environment and the outside world\<close>

text \<open>
  The process environment is explicit state: \<^verbatim>\<open>os.Getenv\<close> reads it when it is called and
  gives the empty string for a variable that is not set.
\<close>

type_synonym Env = "string \<rightharpoonup> string"

definition Getenv :: "Env \<Rightarrow> string \<Rightarrow> string" where
  "Getenv env key = (case env key of None \<Rightarrow> [] | Some v \<Rightarrow> v)"

text \<open>
  What \<^verbatim>\<open>client.Do\<close> gives for a GET of a URI: an error (no connection, timeout, cancelled
  context), or a response with its status code and its body. The body is represented by
  what \<^verbatim>\<open>json.NewDecoder(res.Body).Decode(rec)\<close> leaves in \<^verbatim>\<open>rec\<close> and by whether
  \<^verbatim>\<open>Decode\<close> reported an error; on a syntax error \<^verbatim>\<open>rec\<close> is left untouched, so \<open>Items\<close> is
  empty, and on a type mismatch the fields decoded so far are kept.
\<close>

datatype http_result =
  ClientError
| Response (StatusCode: int) (Decoded: Rec) (DecodeFailed: bool)

text \<open>
  The world outside the process: whether \<^verbatim>\<open>http.NewRequest\<close> rejects a URI, and what the
  network gives for it. The request carries the caller's context, whose cancellation is one
  of the ways \<open>ClientDo\<close> ends in \<open>ClientError\<close>.
\<close>

record World =
  NewRequestFails :: "string \<Rightarrow> bool"
  ClientDo :: "string \<Rightarrow> http_result"

datatype panic = IndexOutOfRange nat nat

text \<open>\<^verbatim>\<open>xs[i]\<close>: a run-time panic when the index is not below the length.\<close>

definition index :: "'a list \<Rightarrow> nat \<Rightarrow> panic + 'a" where
  "index xs i = (if i < length xs then Inr (xs ! i) else Inl (IndexOutOfRange i (length xs)))"

subsection \<open>getForwardHeaders\<close>

definition getForwardHeaders :: "Request \<Rightarrow> Header" where
  "getForwardHeaders req =
     foldl (\<lambda>header item.
              let values = Header_Values (Header req) item
              in if length values > 0 then header(item \<mapsto> values) else header)
           Map.empty incomingHeaders"

subsection \<open>fetchDetailsFromExternalService and getBookDetails\<close>

text \<open>
  The map \<^verbatim>\<open>isbnIdentifier\<close> filled by the loop of lines 176 to 178; a key that is not in a
  Go map reads as the empty string.
\<close>

definition isbnIdentifier :: "IndustryIdentifier list \<Rightarrow> (string \<rightharpoonup> string)" where
  "isbnIdentifier items = foldl (\<lambda>m item. m(Type_ii item \<mapsto> Identifier item)) Map.empty items"

definition lookupString :: "(string \<rightharpoonup> string) \<Rightarrow> string \<Rightarrow> string" where
  "lookupString m k = (case m k of None \<Rightarrow> [] | Some v \<Rightarrow> v)"

text \<open>
  The parameter \<open>headers\<close> is not used by the body, as in the source (\<open>id'\<close> is the
  source's \<^verbatim>\<open>id\<close>, the name of HOL's identity function); what is printed on
  standard output (lines 139 and 143) is left out of the model.
\<close>

definition fetchDetailsFromExternalService ::
  "Env \<Rightarrow> World \<Rightarrow> string \<Rightarrow> int \<Rightarrow> Header \<Rightarrow> panic + Details" where
  "fetchDetailsFromExternalService env world isbn id' headers =
     (let proto = (if Getenv env ''DO_NOT_ENCRYPT'' = ''true'' then ''http'' else ''https'');
          uri = proto @ ''://www.googleapis.com/books/v1/volumes?q=isbn:'' @ isbn
      in if NewRequestFails world uri then Inr zeroDetails
         else
           (case ClientDo world uri of
              ClientError \<Rightarrow> Inr zeroDetails
            | Response statusCode rec decodeFailed \<Rightarrow>
                if statusCode \<noteq> 200 then Inr zeroDetails
                else
                  (case index (Items rec) 0 of
                     Inl p \<Rightarrow> Inl p
                   | Inr item \<Rightarrow>
                       (let book = VolumeInfo item;
                            printType = (if PrintType book = ''BOOK'' then ''paperback''
                                         else ''unknown'');
                            language = (if Language_vi book = ''en'' then ''English''
                                        else ''unknown'');
                            ids = isbnIdentifier (IndustryIdentifiers book);
                            year = fst (Atoi (PublishedDate book))
                        in (case index (Authors book) 0 of
                              Inl p \<Rightarrow> Inl p
                            | Inr author \<Rightarrow>
                                Inr \<lparr>Id_details = id',
                                     Author = author,
                                     Year = year,
                                     Type = printType,
                                     Pages = PageCount book,
                                     Publisher = Publisher_vi book,
                                     Language = language,
                                     ISBN_10 = lookupString ids ''ISBN_10'',
                                     ISBN_13 = lookupString ids ''ISBN_13''\<rparr>)))))"

definition getBookDetails :: "Env \<Rightarrow> World \<Rightarrow> int \<Rightarrow> Header \<Rightarrow> panic + Details" where
  "getBookDetails env world id' headers =
     (if Getenv env ''ENABLE_EXTERNAL_BOOK_SERVICE'' = ''true'' then
        (let isbn = ''0486424618''
         in fetchDetailsFromExternalService env world isbn id' headers)
      else
        Inr \<lparr>Id_details = id',
             Author = ''William Shakespeare'',
             Year = 1595,
             Type = ''paperback'',
             Pages = 200,
             Publisher = ''PublisherA'',
             Language = ''English'',
             ISBN_10 = ''1234567890'',
             ISBN_13 = ''123-1234567890''\<rparr>)"

subsection \<open>encoding/json of the two response bodies\<close>

text \<open>\<^verbatim>\<open>strconv.AppendInt\<close> in base 10, which the encoder uses for an \<^verbatim>\<open>int\<close> field.\<close>

fun natDigits :: "nat \<Rightarrow> string" where
  "natDigits n =
     (if n < 10 then [char_of (48 + n)] else natDigits (n div 10) @ [char_of (48 + n mod 10)])"

declare natDigits.simps [simp del]

definition Itoa :: "int \<Rightarrow> string" where
  "Itoa i = (if i < 0 then CHR ''-'' # natDigits (nat (- i)) else natDigits (nat i))"

definition hexDigit :: "nat \<Rightarrow> char" where
  "hexDigit n = ''0123456789abcdef'' ! (n mod 16)"

text \<open>
  How \<^verbatim>\<open>json.Marshal\<close> writes one ASCII byte of a string: the quote and the backslash
  get a backslash in front, backspace, form feed, newline, carriage return and tab their
  short escapes, the other control bytes and the bytes \<^verbatim>\<open><\<close>, \<^verbatim>\<open>>\<close>, \<^verbatim>\<open>&\<close> a six-byte
  escape, and every other byte is copied. (Releases of Go before 1.22 wrote bytes 8 and 12
  with the six-byte escape.)
\<close>

definition escapeByte :: "char \<Rightarrow> string" where
  "escapeByte c =
     (let b = byte c
      in if b = 92 \<or> b = 34 then [CHR 0x5C, c]
         else if b = 8 then [CHR 0x5C, CHR ''b'']
         else if b = 12 then [CHR 0x5C, CHR ''f'']
         else if b = 10 then [CHR 0x5C, CHR ''n'']
         else if b = 13 then [CHR 0x5C, CHR ''r'']
         else if b = 9 then [CHR 0x5C, CHR ''t'']
         else if b < 32 \<or> b = 60 \<or> b = 62 \<or> b = 38 then
           [CHR 0x5C, CHR ''u'', CHR ''0'', CHR ''0'', hexDigit (b div 16), hexDigit (b mod 16)]
         else [c])"

text \<open>
  The bytes of a string between its quotes, for a string that is valid UTF-8 (the strings
  of the program are literals or come out of the JSON decoder, which only produces valid
  UTF-8): the code points U+2028 and U+2029, bytes E2 80 A8 and E2 80 A9, are escaped, every
  other byte above 127 is copied.
\<close>

fun appendStringLoop :: "string \<Rightarrow> string" where
  "appendStringLoop (c1 # c2 # c3 # s) =
     (if byte c1 = 226 \<and> byte c2 = 128 \<and> (byte c3 = 168 \<or> byte c3 = 169) then
        [CHR 0x5C, CHR ''u'', CHR ''2'', CHR ''0'', CHR ''2'', hexDigit (byte c3)]
          @ appendStringLoop s
      else (if byte c1 < 128 then escapeByte c1 else [c1]) @ appendStringLoop (c2 # c3 # s))"
| "appendStringLoop (c # s) =
     (if byte c < 128 then escapeByte c else [c]) @ appendStringLoop s"
| "appendStringLoop [] = []"

definition quote :: "string \<Rightarrow> string" where
  "quote s = CHR 0x22 # s @ [CHR 0x22]"

definition jsonString :: "string \<Rightarrow> string" where
  "jsonString s = quote (appendStringLoop s)"

text \<open>A struct is written as an object with its fields in the order of declaration.\<close>

definition Marshal_Details :: "Details \<Rightarrow> string" where
  "Marshal_Details d =
     ''{'' @ quote ''id'' @ '':'' @ Itoa (Id_details d)
     @ '','' @ quote ''author'' @ '':'' @ jsonString (Author d)
     @ '','' @ quote ''year'' @ '':'' @ Itoa (Year d)
     @ '','' @ quote ''type'' @ '':'' @ jsonString (Type d)
     @ '','' @ quote ''pages'' @ '':'' @ Itoa (Pages d)
     @ '','' @ quote ''publisher'' @ '':'' @ jsonString (Publisher d)
     @ '','' @ quote ''language'' @ '':'' @ jsonString (Language d)
     @ '','' @ quote ''isbn-10'' @ '':'' @ jsonString (ISBN_10 d)
     @ '','' @ quote ''isbn-13'' @ '':'' @ jsonString (ISBN_13 d)
     @ ''}''"

definition Marshal_Error :: "string \<Rightarrow> string" where
  "Marshal_Error msg = ''{'' @ quote ''error'' @ '':'' @ jsonString msg @ ''}''"

subsection \<open>The handler\<close>

text \<open>
  \<^verbatim>\<open>http.ResponseWriter\<close> as a value: the header map, the status code once it has been
  written, and the body written so far. \<^verbatim>\<open>WriteHeader\<close> has an effect the first time only,
  and a write before any \<^verbatim>\<open>WriteHeader\<close> sends status 200 first.
\<close>

record ResponseWriter =
  rwHeader :: Header
  rwStatus :: "int option"
  rwBody :: string

definition newResponseWriter :: ResponseWriter where
  "newResponseWriter = \<lparr>rwHeader = Map.empty, rwStatus = None, rwBody = []\<rparr>"

definition WriteHeader :: "ResponseWriter \<Rightarrow> int \<Rightarrow> ResponseWriter" where
  "WriteHeader w code = (if rwStatus w = None then w\<lparr>rwStatus := Some code\<rparr> else w)"

definition Fprint :: "ResponseWriter \<Rightarrow> string \<Rightarrow> ResponseWriter" where
  "Fprint w s = (let w' = WriteHeader w 200 in w'\<lparr>rwBody := rwBody w' @ s\<rparr>)"

text \<open>\<^verbatim>\<open>strings.Split\<close> with a separator of one byte: one more part than separators.\<close>

fun Split :: "string \<Rightarrow> char \<Rightarrow> string list" where
  "Split [] sep = [[]]"
| "Split (c # s) sep =
     (if c = sep then [] # Split s sep
      else (case Split s sep of [] \<Rightarrow> [[c]] | p # ps \<Rightarrow> (c # p) # ps))"

definition details :: "Env \<Rightarrow> World \<Rightarrow> ResponseWriter \<Rightarrow> Request \<Rightarrow> panic + ResponseWriter" where
  "details env world w req =
     (let pathParts = Split (URL_Path req) (CHR ''/'')
      in case index pathParts (length pathParts - 1) of
           Inl p \<Rightarrow> Inl p
         | Inr seg \<Rightarrow>
             (let (id', err) = Atoi seg;
                  headers = getForwardHeaders req;
                  w1 = w\<lparr>rwHeader := Header_Add (rwHeader w) ''Content-Type'' ''application/json''\<rparr>
              in if err \<noteq> None then
                   (let data = Marshal_Error ''please provide numeric product id'';
                        w2 = WriteHeader w1 400
                    in Inr (Fprint w2 data))
                 else
                   (case getBookDetails env world id' headers of
                      Inl p \<Rightarrow> Inl p
                    | Inr d \<Rightarrow> Inr (Fprint w1 (Marshal_Details d)))))"

subsection \<open>Notions used in the statements\<close>

text \<open>The URI that \<open>fetchDetailsFromExternalService\<close> asks for (line 129).\<close>

definition upstreamURI :: "Env \<Rightarrow> string \<Rightarrow> string" where
  "upstreamURI env isbn =
     (if Getenv env ''DO_NOT_ENCRYPT'' = ''true'' then ''http'' else ''https'')
       @ ''://www.googleapis.com/books/v1/volumes?q=isbn:'' @ isbn"

text \<open>A world in which every request is accepted and gets the same result.\<close>

definition constWorld :: "http_result \<Rightarrow> World" where
  "constWorld r = \<lparr>NewRequestFails = (\<lambda>uri. False), ClientDo = (\<lambda>uri. r)\<rparr>"

text \<open>An upstream answer of one item, with the given authors and published date.\<close>

definition sampleBook :: "string list \<Rightarrow> string \<Rightarrow> VolumeInfo" where
  "sampleBook authors date =
     \<lparr>Language_vi = ''en'', PrintType = ''BOOK'', Authors = authors,
      Publisher_vi = ''Courier Corporation'', PageCount = 80, PublishedDate = date,
      IndustryIdentifiers =
        [\<lparr>Type_ii = ''ISBN_10'', Identifier = ''0486424618''\<rparr>,
         \<lparr>Type_ii = ''ISBN_13'', Identifier = ''9780486424613''\<rparr>]\<rparr>"

definition sampleRec :: "string list \<Rightarrow> string \<Rightarrow> Rec" where
  "sampleRec authors date = \<lparr>Items = [\<lparr>VolumeInfo = sampleBook authors date\<rparr>]\<rparr>"

definition externalEnv :: Env where
  "externalEnv = [''ENABLE_EXTERNAL_BOOK_SERVICE'' \<mapsto> ''true'']"

text \<open>
  Decimal notation, independently of \<open>Atoi\<close>: the value of a string of digits, the strings
  that are an optional sign followed by at least one decimal digit, and the integer such a
  string denotes.
\<close>

definition digitsFrom :: "nat \<Rightarrow> string \<Rightarrow> nat" where
  "digitsFrom n s = foldl (\<lambda>a c. a * 10 + digitVal c) n s"

definition digitsValue :: "string \<Rightarrow> nat" where
  "digitsValue s = digitsFrom 0 s"

definition isDecimalInteger :: "string \<Rightarrow> bool" where
  "isDecimalInteger s \<longleftrightarrow>
     (case s of
        [] \<Rightarrow> False
      | c # r \<Rightarrow> if c = CHR ''+'' \<or> c = CHR ''-'' then r \<noteq> [] \<and> list_all isDigit r
                 else list_all isDigit s)"

definition decimalValue :: "string \<Rightarrow> int" where
  "decimalValue s =
     (case s of
        [] \<Rightarrow> 0
      | c # r \<Rightarrow> if c = CHR ''-'' then - int (digitsValue r)
                 else if c = CHR ''+'' then int (digitsValue r)
                 else int (digitsValue s))"

text \<open>The digits that follow the optional sign.\<close>

definition unsignedPart :: "string \<Rightarrow> string" where
  "unsignedPart s =
     (case s of [] \<Rightarrow> [] | c # r \<Rightarrow> if c = CHR ''+'' \<or> c = CHR ''-'' then r else s)"

text \<open>The values of a 64-bit \<^verbatim>\<open>int\<close>.\<close>

definition inIntRange :: "int \<Rightarrow> bool" where
  "inIntRange i \<longleftrightarrow> - (2 ^ 63) \<le> i \<and> i < 2 ^ 63"

text \<open>The header map after line 93, when the writer is fresh.\<close>

definition jsonHeader :: Header where
  "jsonHeader = [''Content-Type'' \<mapsto> [''application/json'']]"

text \<open>
  The year as the specification words it, kept apart from the code's \<open>Atoi\<close>: the integer
  denoted by the leading digits of the published date.
\<close>

definition leadingNumericYear :: "string \<Rightarrow> int" where
  "leadingNumericYear s = int (digitsValue (takeWhile isDigit s))"




text \<open>One step of the canonicalising loop.\<close>

definition canonByte :: "bool \<Rightarrow> char \<Rightarrow> char" where
  "canonByte upper c =
     (if upper \<and> 97 \<le> byte c \<and> byte c \<le> 122 then char_of (byte c - 32)
      else if \<not> upper \<and> 65 \<le> byte c \<and> byte c \<le> 90 then char_of (byte c + 32)
      else c)"

text \<open>The header lines of a sample request, in mixed capitalisation.\<close>

definition sampleLines :: "(string \<times> string) list" where
  "sampleLines =
     [(''X-Request-ID'', ''a''), (''Accept'', ''text/html''), (''x-request-id'', ''b''),
      (''User-Agent'', ''curl'')]"

definition sampleRequest :: Request where
  "sampleRequest = \<lparr>URL_Path = ''/details/1'', Header = inboundHeader sampleLines\<rparr>"

section \<open>Properties\<close>

subsection \<open>The external book client\<close>

lemma fetch_unfold:
  "fetchDetailsFromExternalService env world isbn id' headers =
     (if NewRequestFails world (upstreamURI env isbn) then Inr zeroDetails
      else case ClientDo world (upstreamURI env isbn) of
             ClientError \<Rightarrow> Inr zeroDetails
           | Response statusCode rec decodeFailed \<Rightarrow>
               if statusCode \<noteq> 200 then Inr zeroDetails
               else (case Items rec of
                       [] \<Rightarrow> Inl (IndexOutOfRange 0 0)
                     | item # _ \<Rightarrow>
                         (case Authors (VolumeInfo item) of
                            [] \<Rightarrow> Inl (IndexOutOfRange 0 0)
                          | author # _ \<Rightarrow>
                              Inr \<lparr>Id_details = id',
                                   Author = author,
                                   Year = fst (Atoi (PublishedDate (VolumeInfo item))),
                                   Type = (if PrintType (VolumeInfo item) = ''BOOK''
                                           then ''paperback'' else ''unknown''),
                                   Pages = PageCount (VolumeInfo item),
                                   Publisher = Publisher_vi (VolumeInfo item),
                                   Language = (if Language_vi (VolumeInfo item) = ''en''
                                               then ''English'' else ''unknown''),
                                   ISBN_10 = lookupString
                                     (isbnIdentifier (IndustryIdentifiers (VolumeInfo item)))
                                     ''ISBN_10'',
                                   ISBN_13 = lookupString
                                     (isbnIdentifier (IndustryIdentifiers (VolumeInfo item)))
                                     ''ISBN_13''\<rparr>)))"
  unfolding fetchDetailsFromExternalService_def upstreamURI_def index_def Let_def
  by (simp split: http_result.split list.split split del: if_split cong: if_cong)

lemma fetch_handled_failures:
  "NewRequestFails world (upstreamURI env isbn) \<or>
   ClientDo world (upstreamURI env isbn) = ClientError \<or>
   (\<exists>rec df code. ClientDo world (upstreamURI env isbn) = Response code rec df \<and> code \<noteq> 200)
   \<Longrightarrow> fetchDetailsFromExternalService env world isbn id' headers = Inr zeroDetails"
  by (auto simp add: fetch_unfold)

text \<open>
  C1 (the code departs from the claim). A connection error and a status other than 200 give
  the zero-valued record (\<open>fetch_handled_failures\<close>), but the error of the JSON decoder is
  dropped and the first item and its first author are read without a check: an answer of
  status 200 whose body does not decode (no items), and one whose only item has no author,
  end in an index-out-of-range panic instead of the zero-valued record; and a body that
  fails to decode after the first item has been filled in gives that item's record, not the
  zero-valued one.
\<close>

theorem fetch_unguarded_index_panics:
  "fetchDetailsFromExternalService Map.empty
      (constWorld (Response 200 \<lparr>Items = []\<rparr> True))
      ''0486424618'' 42 Map.empty = Inl (IndexOutOfRange 0 0) \<and>
   fetchDetailsFromExternalService Map.empty
      (constWorld (Response 200 (sampleRec [] ''1595'') False))
      ''0486424618'' 42 Map.empty = Inl (IndexOutOfRange 0 0) \<and>
   fetchDetailsFromExternalService Map.empty
      (constWorld (Response 200 (sampleRec [''William Shakespeare''] ''1595'') True))
      ''0486424618'' 42 Map.empty \<noteq> Inr zeroDetails"
  by (simp add: fetch_unfold constWorld_def sampleRec_def sampleBook_def zeroDetails_def)

text \<open>
  C6. When the upstream answer has status 200 and its first item has an author, the
  resulting record has type paperback exactly when the print type is BOOK and unknown
  otherwise, and language English exactly when the language is en and unknown otherwise.
\<close>

theorem fetch_type_language:
  assumes "\<not> NewRequestFails world (upstreamURI env isbn)"
    and "ClientDo world (upstreamURI env isbn) = Response 200 rec decodeFailed"
    and "Items rec = item # items"
    and "Authors (VolumeInfo item) = author # authors"
  shows "\<exists>d. fetchDetailsFromExternalService env world isbn id' headers = Inr d \<and>
             Type d = (if PrintType (VolumeInfo item) = ''BOOK'' then ''paperback''
                       else ''unknown'') \<and>
             Language d = (if Language_vi (VolumeInfo item) = ''en'' then ''English''
                           else ''unknown'')"
  using assms by (simp add: fetch_unfold)

theorem fetch_type_language_witness:
  "\<exists>d. fetchDetailsFromExternalService Map.empty
          (constWorld (Response 200 (sampleRec [''William Shakespeare''] ''1595'') False))
          ''0486424618'' 42 Map.empty = Inr d \<and>
       Type d = ''paperback'' \<and> Language d = ''English''"
proof -
  let ?rec = "sampleRec [''William Shakespeare''] ''1595''"
  let ?world = "constWorld (Response 200 ?rec False)"
  let ?item = "\<lparr>VolumeInfo = sampleBook [''William Shakespeare''] ''1595''\<rparr>"
  have h1: "\<not> NewRequestFails ?world (upstreamURI Map.empty ''0486424618'')"
    by (simp add: constWorld_def)
  have h2: "ClientDo ?world (upstreamURI Map.empty ''0486424618'') = Response 200 ?rec False"
    by (simp add: constWorld_def)
  have h3: "Items ?rec = ?item # []"
    by (simp add: sampleRec_def)
  have h4: "Authors (VolumeInfo ?item) = ''William Shakespeare'' # []"
    by (simp add: sampleBook_def)
  from fetch_type_language [OF h1 h2 h3 h4, of 42 Map.empty]
  show ?thesis by (simp add: sampleBook_def)
qed

subsection \<open>The detail resolver\<close>

text \<open>
  C5. When the variable that enables the external source is not the string true,
  \<open>getBookDetails\<close> returns, for every id, the literal record with that id and the fixed
  placeholder values; it never fails.
\<close>

theorem getBookDetails_static:
  "Getenv env ''ENABLE_EXTERNAL_BOOK_SERVICE'' \<noteq> ''true'' \<Longrightarrow>
   getBookDetails env world id' headers =
     Inr \<lparr>Id_details = id', Author = ''William Shakespeare'', Year = 1595,
          Type = ''paperback'', Pages = 200, Publisher = ''PublisherA'',
          Language = ''English'', ISBN_10 = ''1234567890'', ISBN_13 = ''123-1234567890''\<rparr>"
  by (simp add: getBookDetails_def)

theorem getBookDetails_static_witness:
  "Getenv Map.empty ''ENABLE_EXTERNAL_BOOK_SERVICE'' \<noteq> ''true'' \<and>
   getBookDetails Map.empty (constWorld ClientError) 42 Map.empty =
     Inr \<lparr>Id_details = 42, Author = ''William Shakespeare'', Year = 1595,
          Type = ''paperback'', Pages = 200, Publisher = ''PublisherA'',
          Language = ''English'', ISBN_10 = ''1234567890'', ISBN_13 = ''123-1234567890''\<rparr>"
proof -
  have h: "Getenv Map.empty ''ENABLE_EXTERNAL_BOOK_SERVICE'' \<noteq> ''true''"
    by (simp add: Getenv_def)
  from getBookDetails_static [OF h, of "constWorld ClientError" 42 Map.empty] h
  show ?thesis by simp
qed

subsection \<open>strconv.Atoi\<close>

lemma byte_less_256: "byte c < 256"
proof -
  have "byte c mod 256 = byte c" by (simp add: byte_def)
  moreover have "byte c mod 256 < 256" by simp
  ultimately show ?thesis by simp
qed

lemma digitsFrom_Nil [simp]: "digitsFrom n [] = n"
  by (simp add: digitsFrom_def)

lemma digitsFrom_Cons [simp]: "digitsFrom n (c # s) = digitsFrom (n * 10 + digitVal c) s"
  by (simp add: digitsFrom_def)

lemma digitsFrom_ge: "n \<le> digitsFrom n s"
proof (induction s arbitrary: n)
  case Nil
  show ?case by simp
next
  case (Cons c s)
  have "n \<le> n * 10 + digitVal c" by simp
  also have "\<dots> \<le> digitsFrom (n * 10 + digitVal c) s" by (rule Cons.IH)
  finally show ?case by simp
qed

lemma digit_byte:
  assumes "isDigit ch"
  shows "(byte ch + 256 - 48) mod 256 = digitVal ch" and "digitVal ch \<le> 9"
proof -
  have r: "48 \<le> byte ch" "byte ch \<le> 57" using assms by (simp_all add: isDigit_def)
  have "byte ch + 256 - 48 = 256 + (byte ch - 48)" using r by linarith
  then have "(byte ch + 256 - 48) mod 256 = (256 + (byte ch - 48)) mod 256"
    by (rule arg_cong)
  also have "\<dots> = (byte ch - 48) mod 256" by (rule mod_add_self1)
  also have "\<dots> = byte ch - 48" using r by (intro mod_less) linarith
  finally show "(byte ch + 256 - 48) mod 256 = digitVal ch"
    by (simp only: digitVal_def)
  from r show "digitVal ch \<le> 9"
    unfolding digitVal_def by linarith
qed

lemma nondigit_byte:
  assumes "\<not> isDigit ch"
  shows "9 < (byte ch + 256 - 48) mod 256"
proof (cases "byte ch < 48")
  case True
  then have "byte ch + 256 - 48 < 256" by linarith
  then have "(byte ch + 256 - 48) mod 256 = byte ch + 256 - 48" by (rule mod_less)
  then show ?thesis by linarith
next
  case False
  with assms have r: "57 < byte ch" by (simp add: isDigit_def)
  have b: "byte ch < 256" by (rule byte_less_256)
  have "byte ch + 256 - 48 = 256 + (byte ch - 48)" using r by linarith
  then have "(byte ch + 256 - 48) mod 256 = (256 + (byte ch - 48)) mod 256"
    by (rule arg_cong)
  also have "\<dots> = (byte ch - 48) mod 256" by (rule mod_add_self1)
  also have "\<dots> = byte ch - 48" using b by (intro mod_less) linarith
  finally show ?thesis using r by linarith
qed

lemma atoiFastLoop_Cons:
  "atoiFastLoop n (ch # s) =
     (if isDigit ch then atoiFastLoop (n * 10 + int (digitVal ch)) s else None)"
proof (cases "isDigit ch")
  case True
  have "\<not> 9 < digitVal ch" using digit_byte(2) [OF True] by simp
  then show ?thesis
    by (simp only: atoiFastLoop.simps Let_def digit_byte(1) [OF True] True if_True if_False)
next
  case False
  show ?thesis
    by (simp only: atoiFastLoop.simps Let_def nondigit_byte [OF False] False if_True if_False)
qed

lemma atoiFastLoop_eq:
  "atoiFastLoop (int n) s =
     (if list_all isDigit s then Some (int (digitsFrom n s)) else None)"
proof (induction s arbitrary: n)
  case Nil
  show ?case by simp
next
  case (Cons c s)
  have "int n * 10 + int (digitVal c) = int (n * 10 + digitVal c)" by simp
  then show ?case
    by (simp only: atoiFastLoop_Cons Cons.IH list.pred_inject digitsFrom_Cons split: if_split)
       simp
qed

lemma parseUintLoop_Cons:
  "parseUintLoop n (c # s) =
     (if isDigit c then
        (if maxUint64 div 10 + 1 \<le> n then (maxUint64, Some ErrRange)
         else if (n * 10 + digitVal c) mod 2 ^ 64 < n * 10 \<or>
                 maxUint64 < (n * 10 + digitVal c) mod 2 ^ 64
              then (maxUint64, Some ErrRange)
              else parseUintLoop ((n * 10 + digitVal c) mod 2 ^ 64) s)
      else (0, Some ErrSyntax))"
  by (simp only: parseUintLoop.simps Let_def isDigit_def digitVal_def)

lemma parseUintLoop_ok:
  "list_all isDigit s \<Longrightarrow> digitsFrom n s \<le> maxUint64 \<Longrightarrow>
   parseUintLoop n s = (digitsFrom n s, None)"
proof (induction s arbitrary: n)
  case Nil
  show ?case by simp
next
  case (Cons c s)
  let ?n1 = "n * 10 + digitVal c"
  have dig: "isDigit c" and rest: "list_all isDigit s" using Cons.prems(1) by simp_all
  have "?n1 \<le> digitsFrom ?n1 s" by (rule digitsFrom_ge)
  with Cons.prems(2) have b: "?n1 \<le> maxUint64" by simp
  then have small: "\<not> maxUint64 div 10 + 1 \<le> n" by (simp add: maxUint64_def)
  have "?n1 < 2 ^ 64" using b by (simp add: maxUint64_def)
  then have m: "?n1 mod 2 ^ 64 = ?n1" by (rule mod_less)
  have c1: "\<not> (?n1 < n * 10 \<or> maxUint64 < ?n1)" using b by simp
  have "parseUintLoop n (c # s) = parseUintLoop ?n1 s"
    by (simp only: parseUintLoop_Cons dig small m c1 if_True if_False)
  also have "\<dots> = (digitsFrom ?n1 s, None)"
    using rest Cons.prems(2) by (intro Cons.IH) simp_all
  finally show ?case by simp
qed

lemma parseUintLoop_overflow:
  "list_all isDigit s \<Longrightarrow> maxUint64 < digitsFrom n s \<Longrightarrow> n \<le> maxUint64 \<Longrightarrow>
   parseUintLoop n s = (maxUint64, Some ErrRange)"
proof (induction s arbitrary: n)
  case Nil
  then show ?case by simp
next
  case (Cons c s)
  let ?n1 = "n * 10 + digitVal c"
  have dig: "isDigit c" and rest: "list_all isDigit s" using Cons.prems(1) by simp_all
  show ?case
  proof (cases "maxUint64 div 10 + 1 \<le> n")
    case True
    show ?thesis by (simp only: parseUintLoop_Cons dig True if_True)
  next
    case small: False
    show ?thesis
    proof (cases "?n1 \<le> maxUint64")
      case True
      then have "?n1 < 2 ^ 64" by (simp add: maxUint64_def)
      then have m: "?n1 mod 2 ^ 64 = ?n1" by (rule mod_less)
      have c1: "\<not> (?n1 < n * 10 \<or> maxUint64 < ?n1)" using True by simp
      have "parseUintLoop n (c # s) = parseUintLoop ?n1 s"
        by (simp only: parseUintLoop_Cons dig small m c1 if_True if_False)
      also have "\<dots> = (maxUint64, Some ErrRange)"
        using rest Cons.prems(2) True by (intro Cons.IH) simp_all
      finally show ?thesis .
    next
      case False
      have d9: "digitVal c \<le> 9" by (rule digit_byte(2) [OF dig])
      have lo: "(2::nat) ^ 64 \<le> ?n1" using False by (simp add: maxUint64_def)
      have hi: "?n1 < 2 ^ 64 + 2 ^ 64" using small d9 by (simp add: maxUint64_def)
      have "?n1 mod 2 ^ 64 = ?n1 - 2 ^ 64"
        using lo hi by (simp add: mod_if)
      then have "?n1 mod 2 ^ 64 < n * 10"
        using lo d9 by simp
      then have c1: "?n1 mod 2 ^ 64 < n * 10 \<or> maxUint64 < ?n1 mod 2 ^ 64" ..
      show ?thesis
        by (simp only: parseUintLoop_Cons dig small c1 if_True if_False)
    qed
  qed
qed

lemma parseUintLoop_syntax:
  "\<not> list_all isDigit s \<Longrightarrow> snd (parseUintLoop n s) \<noteq> None"
proof (induction s arbitrary: n)
  case Nil
  then show ?case by simp
next
  case (Cons c s)
  show ?case
  proof (cases "isDigit c")
    case True
    with Cons.prems have "\<not> list_all isDigit s" by simp
    then have "\<And>m. snd (parseUintLoop m s) \<noteq> None" by (rule Cons.IH)
    then show ?thesis by (simp only: parseUintLoop_Cons True if_True split: if_split) simp
  next
    case False
    then show ?thesis by (simp only: parseUintLoop_Cons if_False) simp
  qed
qed

lemma parseUintLoop_syntax_zero:
  "snd (parseUintLoop n s) = Some ErrSyntax \<Longrightarrow> fst (parseUintLoop n s) = 0"
proof (induction s arbitrary: n)
  case Nil
  then show ?case by simp
next
  case (Cons c s)
  show ?case
  proof (cases "isDigit c")
    case True
    show ?thesis
      using Cons.prems Cons.IH
      by (simp only: parseUintLoop_Cons True if_True split: if_splits) simp_all
  next
    case False
    then show ?thesis by (simp only: parseUintLoop_Cons if_False) simp
  qed
qed

lemma parseUintLoop_range_max:
  "snd (parseUintLoop n s) = Some ErrRange \<Longrightarrow> fst (parseUintLoop n s) = maxUint64"
proof (induction s arbitrary: n)
  case Nil
  then show ?case by simp
next
  case (Cons c s)
  show ?case
  proof (cases "isDigit c")
    case True
    show ?thesis
      using Cons.prems Cons.IH
      by (simp only: parseUintLoop_Cons True if_True split: if_splits) simp_all
  next
    case False
    with Cons.prems show ?thesis by (simp only: parseUintLoop_Cons if_False) simp
  qed
qed

lemma ParseUint_ok:
  "b \<noteq> [] \<Longrightarrow> list_all isDigit b \<Longrightarrow> digitsValue b \<le> maxUint64 \<Longrightarrow>
   ParseUint b = (digitsValue b, None)"
  by (simp add: ParseUint_def digitsValue_def parseUintLoop_ok)

lemma ParseUint_overflow:
  "list_all isDigit b \<Longrightarrow> maxUint64 < digitsValue b \<Longrightarrow>
   ParseUint b = (maxUint64, Some ErrRange)"
proof -
  assume d: "list_all isDigit b" and v: "maxUint64 < digitsValue b"
  from v have "b \<noteq> []" by (auto simp add: digitsValue_def)
  moreover have "parseUintLoop 0 b = (maxUint64, Some ErrRange)"
    using d v by (intro parseUintLoop_overflow) (simp_all add: digitsValue_def)
  ultimately show ?thesis by (simp add: ParseUint_def)
qed

lemma ParseUint_not_digits:
  assumes "b = [] \<or> \<not> list_all isDigit b"
  shows "ParseUint b = (0, Some ErrSyntax) \<or> ParseUint b = (maxUint64, Some ErrRange)"
proof (cases "b = []")
  case True
  then show ?thesis by (simp add: ParseUint_def)
next
  case False
  with assms have nd: "\<not> list_all isDigit b" by simp
  obtain un e where r: "parseUintLoop 0 b = (un, e)" by (cases "parseUintLoop 0 b")
  from parseUintLoop_syntax [OF nd, of 0] r obtain k where e: "e = Some k" by auto
  show ?thesis
  proof (cases k)
    case ErrSyntax
    with parseUintLoop_syntax_zero [of 0 b] r e have "un = 0" by simp
    with r e ErrSyntax False show ?thesis by (simp add: ParseUint_def)
  next
    case ErrRange
    with parseUintLoop_range_max [of 0 b] r e have "un = maxUint64" by simp
    with r e ErrRange False show ?thesis by (simp add: ParseUint_def)
  qed
qed

lemma isDecimalInteger_unsignedPart:
  "isDecimalInteger s \<longleftrightarrow> unsignedPart s \<noteq> [] \<and> list_all isDigit (unsignedPart s)"
  by (cases s) (auto simp add: isDecimalInteger_def unsignedPart_def)

lemma decimalValue_unsignedPart:
  "decimalValue s =
     (if take 1 s = ''-'' then - int (digitsValue (unsignedPart s))
      else int (digitsValue (unsignedPart s)))"
  by (cases s) (auto simp add: decimalValue_def unsignedPart_def digitsValue_def)

lemma ParseInt_unfold:
  "ParseInt s =
     (if s = [] then (0, Some ErrSyntax)
      else if ParseUint (unsignedPart s) = (0, Some ErrSyntax) then (0, Some ErrSyntax)
      else if snd (ParseUint (unsignedPart s)) = Some ErrSyntax then (0, Some ErrSyntax)
      else if take 1 s \<noteq> ''-'' \<and> 2 ^ 63 \<le> fst (ParseUint (unsignedPart s))
        then (2 ^ 63 - 1, Some ErrRange)
      else if take 1 s = ''-'' \<and> 2 ^ 63 < fst (ParseUint (unsignedPart s))
        then (- (2 ^ 63), Some ErrRange)
      else (if take 1 s = ''-'' then - int (fst (ParseUint (unsignedPart s)))
            else int (fst (ParseUint (unsignedPart s))), None))"
proof (cases s)
  case Nil
  then show ?thesis by (simp add: ParseInt_def)
next
  case (Cons c r)
  obtain un e where u: "ParseUint (unsignedPart s) = (un, e)"
    by (cases "ParseUint (unsignedPart s)")
  have u': "ParseUint (if c = CHR ''+'' \<or> c = CHR ''-'' then r else c # r) = (un, e)"
    using u Cons by (simp add: unsignedPart_def)
  show ?thesis
    unfolding ParseInt_def Cons list.case Let_def u' u [unfolded Cons]
    by (simp split: option.split NumError.split)
qed

lemma ParseInt_decimal:
  assumes "isDecimalInteger s"
  shows "ParseInt s =
     (if - (2 ^ 63) \<le> decimalValue s \<and> decimalValue s < 2 ^ 63 then (decimalValue s, None)
      else (if take 1 s = ''-'' then - (2 ^ 63) else 2 ^ 63 - 1, Some ErrRange))"
proof -
  let ?b = "unsignedPart s"
  have b: "?b \<noteq> []" "list_all isDigit ?b"
    using assms by (simp_all add: isDecimalInteger_unsignedPart)
  then have ne: "s \<noteq> []" by (auto simp add: unsignedPart_def)
  show ?thesis
  proof (cases "digitsValue ?b \<le> maxUint64")
    case True
    have u: "ParseUint ?b = (digitsValue ?b, None)"
      using b True by (rule ParseUint_ok)
    show ?thesis
      unfolding ParseInt_unfold u decimalValue_unsignedPart using ne
      by (auto simp add: maxUint64_def)
  next
    case False
    then have big: "maxUint64 < digitsValue ?b" by simp
    have u: "ParseUint ?b = (maxUint64, Some ErrRange)"
      using b(2) big by (rule ParseUint_overflow)
    show ?thesis
      unfolding ParseInt_unfold u decimalValue_unsignedPart using ne big
      by (auto simp add: maxUint64_def)
  qed
qed

lemma ParseInt_not_decimal:
  assumes "\<not> isDecimalInteger s"
  shows "ParseInt s = (0, Some ErrSyntax) \<or>
         ParseInt s = (if take 1 s = ''-'' then - (2 ^ 63) else 2 ^ 63 - 1, Some ErrRange)"
proof -
  let ?b = "unsignedPart s"
  have "?b = [] \<or> \<not> list_all isDigit ?b"
    using assms by (simp add: isDecimalInteger_unsignedPart)
  then have "ParseUint ?b = (0, Some ErrSyntax) \<or> ParseUint ?b = (maxUint64, Some ErrRange)"
    by (rule ParseUint_not_digits)
  then show ?thesis
  proof
    assume "ParseUint ?b = (0, Some ErrSyntax)"
    then show ?thesis by (simp add: ParseInt_unfold)
  next
    assume u: "ParseUint ?b = (maxUint64, Some ErrRange)"
    show ?thesis unfolding ParseInt_unfold u by (simp add: maxUint64_def)
  qed
qed

lemma atoiFast_eq:
  "atoiFast s = (if isDecimalInteger s then (decimalValue s, None) else (0, Some ErrSyntax))"
proof (cases s)
  case Nil
  then show ?thesis by (simp add: atoiFast_def isDecimalInteger_def)
next
  case (Cons c r)
  have l: "\<And>t. atoiFastLoop 0 t =
              (if list_all isDigit t then Some (int (digitsValue t)) else None)"
    using atoiFastLoop_eq [of 0] by (simp add: digitsValue_def)
  show ?thesis
    unfolding atoiFast_def Cons list.case Let_def l isDecimalInteger_def decimalValue_def
    by (cases r) auto
qed

lemma Atoi_decimal_in_range:
  assumes "isDecimalInteger s" and "- (2 ^ 63) \<le> decimalValue s" and "decimalValue s < 2 ^ 63"
  shows "Atoi s = (decimalValue s, None)"
  using assms by (simp add: Atoi_def atoiFast_eq ParseInt_decimal)

lemma Atoi_not_decimal:
  assumes "\<not> isDecimalInteger s"
  shows "snd (Atoi s) \<noteq> None"
  using assms ParseInt_not_decimal [OF assms] by (auto simp add: Atoi_def atoiFast_eq)

lemma Atoi_syntax_zero:
  assumes "snd (Atoi s) = Some ErrSyntax"
  shows "fst (Atoi s) = 0"
proof (cases "isDecimalInteger s")
  case True
  with assms show ?thesis
    by (auto simp add: Atoi_def atoiFast_eq ParseInt_decimal split: if_splits)
next
  case False
  with assms ParseInt_not_decimal [OF False] show ?thesis
    by (auto simp add: Atoi_def atoiFast_eq split: if_splits)
qed

lemma digitsFrom_bound:
  "list_all isDigit s \<Longrightarrow> digitsFrom n s < (n + 1) * 10 ^ length s"
proof (induction s arbitrary: n)
  case Nil
  show ?case by simp
next
  case (Cons c s)
  have d: "digitVal c \<le> 9" using Cons.prems by (simp add: digit_byte(2))
  have "digitsFrom (n * 10 + digitVal c) s < (n * 10 + digitVal c + 1) * 10 ^ length s"
    using Cons.prems by (intro Cons.IH) simp
  also have "\<dots> \<le> ((n + 1) * 10) * 10 ^ length s"
    using d by (intro mult_le_mono1) simp
  finally show ?case by (simp add: algebra_simps)
qed

lemma decimal_short_in_range:
  assumes "isDecimalInteger s" and "length s < 19"
  shows "inIntRange (decimalValue s)"
proof -
  let ?b = "unsignedPart s"
  have d: "list_all isDigit ?b" using assms(1) by (simp add: isDecimalInteger_unsignedPart)
  have "length ?b \<le> length s" by (cases s) (simp_all add: unsignedPart_def)
  with assms(2) have len: "length ?b \<le> 18" by simp
  have "digitsValue ?b < 10 ^ length ?b"
    using digitsFrom_bound [OF d, of 0] by (simp add: digitsValue_def)
  also have "\<dots> \<le> (10::nat) ^ 18" using len by (intro power_increasing) simp_all
  finally have "digitsValue ?b < 10 ^ 18" .
  then have "int (digitsValue ?b) < int (10 ^ 18)" by (simp only: of_nat_less_iff)
  then have "int (digitsValue ?b) < 10 ^ 18" by simp
  then show ?thesis
    by (simp add: inIntRange_def decimalValue_unsignedPart)
qed

lemma Atoi_decimal:
  assumes "isDecimalInteger s"
  shows "Atoi s =
     (if inIntRange (decimalValue s) then (decimalValue s, None)
      else (if take 1 s = ''-'' then - (2 ^ 63) else 2 ^ 63 - 1, Some ErrRange))"
proof (cases "0 < length s \<and> length s < 19")
  case True
  then have "inIntRange (decimalValue s)" using assms by (simp add: decimal_short_in_range)
  with True assms show ?thesis by (simp add: Atoi_def atoiFast_eq)
next
  case False
  then have "Atoi s = ParseInt s" by (auto simp add: Atoi_def)
  then show ?thesis using assms by (simp add: ParseInt_decimal inIntRange_def)
qed

lemma Atoi_no_error_iff:
  "snd (Atoi s) = None \<longleftrightarrow> isDecimalInteger s \<and> inIntRange (decimalValue s)"
proof (cases "isDecimalInteger s")
  case True
  then show ?thesis by (simp add: Atoi_decimal)
next
  case False
  then show ?thesis using Atoi_not_decimal [OF False] by simp
qed

subsection \<open>The handler\<close>

lemma Split_nonempty: "Split s sep \<noteq> []"
  by (induction s) (auto split: list.split)

lemma index_last: "xs \<noteq> [] \<Longrightarrow> index xs (length xs - 1) = Inr (last xs)"
  by (simp add: index_def last_conv_nth)

lemma Split_no_sep: "sep \<notin> set s \<Longrightarrow> Split s sep = [s]"
  by (induction s) auto

lemma last_Split_append:
  "last (Split (p @ sep # s) sep) = last (Split s sep)"
proof (induction p)
  case Nil
  show ?case by (simp add: Split_nonempty)
next
  case (Cons c p)
  obtain x xs where e: "Split (p @ sep # s) sep = x # xs"
    using Split_nonempty [of "p @ sep # s" sep] by (cases "Split (p @ sep # s) sep") auto
  show ?case
  proof (cases "c = sep")
    case True
    then show ?thesis using Cons.IH by (simp add: Split_nonempty)
  next
    case False
    have "xs = [] \<Longrightarrow> False"
    proof -
      assume "xs = []"
      with e have "length (Split (p @ sep # s) sep) = 1" by simp
      moreover have "\<And>t. sep \<in> set t \<Longrightarrow> 2 \<le> length (Split t sep)"
      proof -
        fix t show "sep \<in> set t \<Longrightarrow> 2 \<le> length (Split t sep)"
          using Split_nonempty [of _ sep]
          by (induction t) (auto split: list.split simp add: Suc_le_eq)
      qed
      then have "2 \<le> length (Split (p @ sep # s) sep)" by simp
      ultimately show False by simp
    qed
    then have "xs \<noteq> []" by blast
    with False e Cons.IH show ?thesis by simp
  qed
qed

text \<open>The segment of a path after its last slash.\<close>

lemma last_Split_path:
  "CHR ''/'' \<notin> set seg \<Longrightarrow> last (Split (p @ ''/'' @ seg) (CHR ''/'')) = seg"
  using last_Split_append [of p "CHR ''/''" seg] by (simp add: Split_no_sep)

lemma Marshal_Error_literal:
  "Marshal_Error ''please provide numeric product id'' =
     ''{'' @ quote ''error'' @ '':'' @ quote ''please provide numeric product id'' @ ''}''"
  by (simp add: Marshal_Error_def jsonString_def escapeByte_def byte_def)

lemma content_type_added:
  "Header_Add Map.empty ''Content-Type'' ''application/json'' = jsonHeader"
  by (simp add: Header_Add_def CanonicalMIMEHeaderKey_def validHeaderFieldByte_def byte_def
        jsonHeader_def Let_def)

lemma details_unfold:
  "details env world newResponseWriter req =
     (let seg = last (Split (URL_Path req) (CHR ''/''))
      in if snd (Atoi seg) \<noteq> None then
           Inr \<lparr>rwHeader = jsonHeader, rwStatus = Some 400,
                rwBody = Marshal_Error ''please provide numeric product id''\<rparr>
         else (case getBookDetails env world (fst (Atoi seg)) (getForwardHeaders req) of
                 Inl p \<Rightarrow> Inl p
               | Inr d \<Rightarrow>
                   Inr \<lparr>rwHeader = jsonHeader, rwStatus = Some 200,
                        rwBody = Marshal_Details d\<rparr>))"
proof -
  obtain i e where a: "Atoi (last (Split (URL_Path req) (CHR ''/''))) = (i, e)"
    by (cases "Atoi (last (Split (URL_Path req) (CHR ''/'')))")
  show ?thesis
    unfolding details_def Let_def index_last [OF Split_nonempty] sum.case a prod.case
      fst_conv snd_conv
    by (simp add: newResponseWriter_def content_type_added WriteHeader_def Fprint_def Let_def
          split: sum.split)
qed

subsection \<open>The published date\<close>

text \<open>
  C2 (as stated, refuted). The claim takes the year from the leading digits of the
  published date, so that a date of year, month and day would give its year. The code hands
  the whole string to \<^verbatim>\<open>strconv.Atoi\<close> (line 179), which rejects it: the year is 0,
  while the leading digits (\<open>leadingNumericYear\<close>, the claim's reading) denote 1595.
\<close>

theorem fetch_year_leading_digits_counterexample:
  "fetchDetailsFromExternalService Map.empty
      (constWorld (Response 200 (sampleRec [''William Shakespeare''] ''1595-05-01'') False))
      ''0486424618'' 42 Map.empty =
     Inr \<lparr>Id_details = 42, Author = ''William Shakespeare'', Year = 0, Type = ''paperback'',
          Pages = 80, Publisher = ''Courier Corporation'', Language = ''English'',
          ISBN_10 = ''0486424618'', ISBN_13 = ''9780486424613''\<rparr> \<and>
   leadingNumericYear ''1595-05-01'' = 1595"
proof -
  have nd: "\<not> isDecimalInteger ''1595-05-01''"
    by (simp add: isDecimalInteger_def isDigit_def byte_def)
  have "Atoi ''1595-05-01'' = (0, Some ErrSyntax)"
    using nd by (simp add: Atoi_def atoiFast_eq)
  moreover have "leadingNumericYear ''1595-05-01'' = 1595"
    by (simp add: leadingNumericYear_def digitsValue_def isDigit_def digitVal_def byte_def)
  ultimately show ?thesis
    by (simp add: fetch_unfold constWorld_def sampleRec_def sampleBook_def
          isbnIdentifier_def lookupString_def)
qed

text \<open>
  C2 (amended). For an upstream answer of status 200 whose first item has an author, the
  year of the result is the value \<^verbatim>\<open>strconv.Atoi\<close> returns for the whole published date,
  its error being dropped: the number denoted when the whole string is an optional sign
  followed by decimal digits with a value in the range of a 64-bit int; 0 when \<^verbatim>\<open>Atoi\<close>
  reports a syntax error, which it does for every string of fewer than 19 bytes that is
  not such a number. The call never fails on account of the date.
\<close>

theorem fetch_year:
  assumes "\<not> NewRequestFails world (upstreamURI env isbn)"
    and "ClientDo world (upstreamURI env isbn) = Response 200 rec decodeFailed"
    and "Items rec = item # items"
    and "Authors (VolumeInfo item) = author # authors"
    and "PublishedDate (VolumeInfo item) = date"
  shows "\<exists>d. fetchDetailsFromExternalService env world isbn id' headers = Inr d \<and>
             Year d = fst (Atoi date) \<and>
             (isDecimalInteger date \<and> inIntRange (decimalValue date) \<longrightarrow>
                Year d = decimalValue date) \<and>
             (snd (Atoi date) = Some ErrSyntax \<longrightarrow> Year d = 0) \<and>
             (\<not> isDecimalInteger date \<and> length date < 19 \<longrightarrow> Year d = 0)"
proof -
  have a: "isDecimalInteger date \<and> inIntRange (decimalValue date) \<longrightarrow>
             fst (Atoi date) = decimalValue date"
    by (simp add: Atoi_decimal)
  have b: "snd (Atoi date) = Some ErrSyntax \<longrightarrow> fst (Atoi date) = 0"
    by (simp add: Atoi_syntax_zero)
  have c: "\<not> isDecimalInteger date \<and> length date < 19 \<longrightarrow> fst (Atoi date) = 0"
    by (auto simp add: Atoi_def atoiFast_eq ParseInt_def)
  show ?thesis using assms a b c by (simp add: fetch_unfold)
qed

theorem fetch_year_witness:
  "\<exists>d. fetchDetailsFromExternalService Map.empty
          (constWorld (Response 200 (sampleRec [''William Shakespeare''] ''1595'') False))
          ''0486424618'' 42 Map.empty = Inr d \<and> Year d = 1595"
proof -
  let ?rec = "sampleRec [''William Shakespeare''] ''1595''"
  let ?world = "constWorld (Response 200 ?rec False)"
  let ?item = "\<lparr>VolumeInfo = sampleBook [''William Shakespeare''] ''1595''\<rparr>"
  have h1: "\<not> NewRequestFails ?world (upstreamURI Map.empty ''0486424618'')"
    by (simp add: constWorld_def)
  have h2: "ClientDo ?world (upstreamURI Map.empty ''0486424618'') = Response 200 ?rec False"
    by (simp add: constWorld_def)
  have h3: "Items ?rec = ?item # []"
    by (simp add: sampleRec_def)
  have h4: "Authors (VolumeInfo ?item) = ''William Shakespeare'' # []"
    by (simp add: sampleBook_def)
  have h5: "PublishedDate (VolumeInfo ?item) = ''1595''"
    by (simp add: sampleBook_def)
  have d: "isDecimalInteger ''1595'' \<and> inIntRange (decimalValue ''1595'')"
    by (simp add: isDecimalInteger_def isDigit_def byte_def inIntRange_def decimalValue_def
          digitsValue_def digitVal_def)
  have v: "decimalValue ''1595'' = 1595"
    by (simp add: decimalValue_def digitsValue_def digitVal_def byte_def)
  from fetch_year [OF h1 h2 h3 h4 h5, of 42 Map.empty] d v
  show ?thesis by auto
qed

subsection \<open>The environment\<close>




subsection \<open>The lookup key\<close>

text \<open>
  C8. When the external source is enabled, \<open>getBookDetails\<close> is the external client called
  with the fixed key 0486424618, whatever the id; two calls that differ in the id (and in
  the forwarded headers) give results that differ in the field id at most; the id of a
  returned record is the caller's id, unless the record is the zero-valued one; and when
  the upstream answer for that key has status 200 and its first item has an author, the
  record is returned with the caller's id in the field id and every other field taken from
  the answer.
\<close>

theorem getBookDetails_external_fixed_isbn:
  assumes "Getenv env ''ENABLE_EXTERNAL_BOOK_SERVICE'' = ''true''"
  shows "getBookDetails env world id1 headers1 =
           fetchDetailsFromExternalService env world ''0486424618'' id1 headers1 \<and>
         map_sum (\<lambda>p. p) (\<lambda>d. d\<lparr>Id_details := 0\<rparr>) (getBookDetails env world id1 headers1) =
           map_sum (\<lambda>p. p) (\<lambda>d. d\<lparr>Id_details := 0\<rparr>) (getBookDetails env world id2 headers2) \<and>
         (\<forall>d. getBookDetails env world id1 headers1 = Inr d \<longrightarrow>
               Id_details d = id1 \<or> d = zeroDetails) \<and>
         (\<not> NewRequestFails world (upstreamURI env ''0486424618'') \<and>
          ClientDo world (upstreamURI env ''0486424618'') = Response 200 rec decodeFailed \<and>
          Items rec = item # items \<and>
          Authors (VolumeInfo item) = author # authors \<longrightarrow>
            getBookDetails env world id1 headers1 =
              Inr \<lparr>Id_details = id1,
                   Author = author,
                   Year = fst (Atoi (PublishedDate (VolumeInfo item))),
                   Type = (if PrintType (VolumeInfo item) = ''BOOK'' then ''paperback''
                           else ''unknown''),
                   Pages = PageCount (VolumeInfo item),
                   Publisher = Publisher_vi (VolumeInfo item),
                   Language = (if Language_vi (VolumeInfo item) = ''en'' then ''English''
                               else ''unknown''),
                   ISBN_10 = lookupString
                     (isbnIdentifier (IndustryIdentifiers (VolumeInfo item))) ''ISBN_10'',
                   ISBN_13 = lookupString
                     (isbnIdentifier (IndustryIdentifiers (VolumeInfo item))) ''ISBN_13''\<rparr>)"
proof -
  have g: "\<And>i h. getBookDetails env world i h =
                  fetchDetailsFromExternalService env world ''0486424618'' i h"
    using assms by (simp add: getBookDetails_def)
  have m: "map_sum (\<lambda>p. p) (\<lambda>d. d\<lparr>Id_details := 0\<rparr>)
             (fetchDetailsFromExternalService env world ''0486424618'' id1 headers1) =
           map_sum (\<lambda>p. p) (\<lambda>d. d\<lparr>Id_details := 0\<rparr>)
             (fetchDetailsFromExternalService env world ''0486424618'' id2 headers2)"
    unfolding fetch_unfold
    by (simp split: http_result.split list.split)
  have i: "\<forall>d. fetchDetailsFromExternalService env world ''0486424618'' id1 headers1 = Inr d
              \<longrightarrow> Id_details d = id1 \<or> d = zeroDetails"
    unfolding fetch_unfold
    by (auto split: http_result.split list.split)
  have e: "\<not> NewRequestFails world (upstreamURI env ''0486424618'') \<and>
           ClientDo world (upstreamURI env ''0486424618'') = Response 200 rec decodeFailed \<and>
           Items rec = item # items \<and>
           Authors (VolumeInfo item) = author # authors \<longrightarrow>
             fetchDetailsFromExternalService env world ''0486424618'' id1 headers1 =
               Inr \<lparr>Id_details = id1,
                    Author = author,
                    Year = fst (Atoi (PublishedDate (VolumeInfo item))),
                    Type = (if PrintType (VolumeInfo item) = ''BOOK'' then ''paperback''
                            else ''unknown''),
                    Pages = PageCount (VolumeInfo item),
                    Publisher = Publisher_vi (VolumeInfo item),
                    Language = (if Language_vi (VolumeInfo item) = ''en'' then ''English''
                                else ''unknown''),
                    ISBN_10 = lookupString
                      (isbnIdentifier (IndustryIdentifiers (VolumeInfo item))) ''ISBN_10'',
                    ISBN_13 = lookupString
                      (isbnIdentifier (IndustryIdentifiers (VolumeInfo item))) ''ISBN_13''\<rparr>"
    by (simp add: fetch_unfold)
  show ?thesis using m i e by (simp only: g)
qed

theorem getBookDetails_external_fixed_isbn_witness:
  "Getenv externalEnv ''ENABLE_EXTERNAL_BOOK_SERVICE'' = ''true'' \<and>
   getBookDetails externalEnv
       (constWorld (Response 200 (sampleRec [''William Shakespeare''] ''1595'') False))
       7 Map.empty =
     Inr \<lparr>Id_details = 7, Author = ''William Shakespeare'', Year = 1595, Type = ''paperback'',
          Pages = 80, Publisher = ''Courier Corporation'', Language = ''English'',
          ISBN_10 = ''0486424618'', ISBN_13 = ''9780486424613''\<rparr> \<and>
   getBookDetails externalEnv
       (constWorld (Response 200 (sampleRec [''William Shakespeare''] ''1595'') False))
       8 Map.empty =
     Inr \<lparr>Id_details = 8, Author = ''William Shakespeare'', Year = 1595, Type = ''paperback'',
          Pages = 80, Publisher = ''Courier Corporation'', Language = ''English'',
          ISBN_10 = ''0486424618'', ISBN_13 = ''9780486424613''\<rparr> \<and>
   getBookDetails externalEnv
       (constWorld (Response 200 (sampleRec [''William Shakespeare''] ''1595'') False))
       7 Map.empty =
     fetchDetailsFromExternalService externalEnv
       (constWorld (Response 200 (sampleRec [''William Shakespeare''] ''1595'') False))
       ''0486424618'' 7 Map.empty"
proof -
  let ?rec = "sampleRec [''William Shakespeare''] ''1595''"
  let ?world = "constWorld (Response 200 ?rec False)"
  let ?item = "\<lparr>VolumeInfo = sampleBook [''William Shakespeare''] ''1595''\<rparr>"
  have h: "Getenv externalEnv ''ENABLE_EXTERNAL_BOOK_SERVICE'' = ''true''"
    by (simp add: Getenv_def externalEnv_def)
  have w: "\<not> NewRequestFails ?world (upstreamURI externalEnv ''0486424618'') \<and>
           ClientDo ?world (upstreamURI externalEnv ''0486424618'') = Response 200 ?rec False \<and>
           Items ?rec = ?item # [] \<and>
           Authors (VolumeInfo ?item) = ''William Shakespeare'' # []"
    by (simp add: constWorld_def sampleRec_def sampleBook_def)
  have d: "isDecimalInteger ''1595'' \<and> inIntRange (decimalValue ''1595'')"
    by (simp add: isDecimalInteger_def isDigit_def byte_def inIntRange_def decimalValue_def
          digitsValue_def digitVal_def)
  have v: "decimalValue ''1595'' = 1595"
    by (simp add: decimalValue_def digitsValue_def digitVal_def byte_def)
  have y: "fst (Atoi ''1595'') = 1595"
    using d v by (simp add: Atoi_decimal)
  have f: "PublishedDate (VolumeInfo ?item) = ''1595''"
          "PrintType (VolumeInfo ?item) = ''BOOK''"
          "Language_vi (VolumeInfo ?item) = ''en''"
          "PageCount (VolumeInfo ?item) = 80"
          "Publisher_vi (VolumeInfo ?item) = ''Courier Corporation''"
          "lookupString (isbnIdentifier (IndustryIdentifiers (VolumeInfo ?item))) ''ISBN_10''
             = ''0486424618''"
          "lookupString (isbnIdentifier (IndustryIdentifiers (VolumeInfo ?item))) ''ISBN_13''
             = ''9780486424613''"
    by (simp_all add: sampleBook_def isbnIdentifier_def lookupString_def)
  note t = getBookDetails_external_fixed_isbn [OF h, of ?world _ Map.empty]
  have a: "getBookDetails externalEnv ?world 7 Map.empty =
             Inr \<lparr>Id_details = 7, Author = ''William Shakespeare'', Year = 1595,
                  Type = ''paperback'', Pages = 80, Publisher = ''Courier Corporation'',
                  Language = ''English'', ISBN_10 = ''0486424618'',
                  ISBN_13 = ''9780486424613''\<rparr>"
    using t [of 7, THEN conjunct2, THEN conjunct2, THEN conjunct2, THEN mp, OF w]
    by (simp only: f y) simp
  have b: "getBookDetails externalEnv ?world 8 Map.empty =
             Inr \<lparr>Id_details = 8, Author = ''William Shakespeare'', Year = 1595,
                  Type = ''paperback'', Pages = 80, Publisher = ''Courier Corporation'',
                  Language = ''English'', ISBN_10 = ''0486424618'',
                  ISBN_13 = ''9780486424613''\<rparr>"
    using t [of 8, THEN conjunct2, THEN conjunct2, THEN conjunct2, THEN mp, OF w]
    by (simp only: f y) simp
  have c: "getBookDetails externalEnv ?world 7 Map.empty =
             fetchDetailsFromExternalService externalEnv ?world ''0486424618'' 7 Map.empty"
    using t [of 7 0 Map.empty] by blast
  from h a b c show ?thesis by blast
qed

subsection \<open>The id in the path\<close>

text \<open>
  C7. When the segment after the last slash of the path is not the decimal notation of an
  int (it is not an optional sign followed by decimal digits, or its value is outside the
  range of a 64-bit int), the handler answers with status 400, the content type
  application/json and the body that consists of the object with the one member error, whose
  value is the string: please provide numeric product id. Whenever the handler answers at
  all, on the error path and on the success path, the content type is application/json.
\<close>

theorem details_non_numeric:
  "(\<not> isDecimalInteger (last (Split (URL_Path req) (CHR ''/''))) \<or>
    \<not> inIntRange (decimalValue (last (Split (URL_Path req) (CHR ''/'')))) \<longrightarrow>
      details env world newResponseWriter req =
        Inr \<lparr>rwHeader = [''Content-Type'' \<mapsto> [''application/json'']],
             rwStatus = Some 400,
             rwBody = ''{'' @ quote ''error'' @ '':''
                        @ quote ''please provide numeric product id'' @ ''}''\<rparr>) \<and>
   (\<forall>w. details env world newResponseWriter req = Inr w \<longrightarrow>
        rwHeader w = [''Content-Type'' \<mapsto> [''application/json'']])"
proof -
  let ?seg = "last (Split (URL_Path req) (CHR ''/''))"
  have "details env world newResponseWriter req =
          Inr \<lparr>rwHeader = [''Content-Type'' \<mapsto> [''application/json'']],
               rwStatus = Some 400,
               rwBody = ''{'' @ quote ''error'' @ '':''
                          @ quote ''please provide numeric product id'' @ ''}''\<rparr>"
    if n: "\<not> isDecimalInteger ?seg \<or> \<not> inIntRange (decimalValue ?seg)"
  proof -
    have "snd (Atoi ?seg) \<noteq> None"
      using n by (simp add: Atoi_no_error_iff)
    then show ?thesis
      by (simp add: details_unfold Marshal_Error_literal jsonHeader_def)
  qed
  moreover have "\<forall>w. details env world newResponseWriter req = Inr w \<longrightarrow>
                   rwHeader w = [''Content-Type'' \<mapsto> [''application/json'']]"
    by (auto simp add: details_unfold Let_def jsonHeader_def split: if_splits sum.splits)
  ultimately show ?thesis by blast
qed

theorem details_non_numeric_witness:
  "\<not> isDecimalInteger (last (Split ''/details/abc'' (CHR ''/''))) \<and>
   details Map.empty (constWorld ClientError) newResponseWriter
       \<lparr>URL_Path = ''/details/abc'', Header = Map.empty\<rparr> =
     Inr \<lparr>rwHeader = [''Content-Type'' \<mapsto> [''application/json'']],
          rwStatus = Some 400,
          rwBody = ''{'' @ [CHR 0x22] @ ''error'' @ [CHR 0x22] @ '':'' @ [CHR 0x22]
                     @ ''please provide numeric product id'' @ [CHR 0x22] @ ''}''\<rparr>"
proof -
  let ?req = "\<lparr>URL_Path = ''/details/abc'', Header = Map.empty\<rparr>"
  have s: "last (Split (URL_Path ?req) (CHR ''/'')) = ''abc''"
    by simp
  have n: "\<not> isDecimalInteger ''abc''"
    by (simp add: isDecimalInteger_def isDigit_def byte_def)
  then have n': "\<not> isDecimalInteger (last (Split (URL_Path ?req) (CHR ''/''))) \<or>
                 \<not> inIntRange (decimalValue (last (Split (URL_Path ?req) (CHR ''/''))))"
    by (simp only: s) simp
  from details_non_numeric [of ?req Map.empty "constWorld ClientError"] n'
  have "details Map.empty (constWorld ClientError) newResponseWriter ?req =
          Inr \<lparr>rwHeader = [''Content-Type'' \<mapsto> [''application/json'']],
               rwStatus = Some 400,
               rwBody = ''{'' @ quote ''error'' @ '':''
                          @ quote ''please provide numeric product id'' @ ''}''\<rparr>"
    by blast
  with n s show ?thesis by (simp add: quote_def)
qed

text \<open>
  C9 (as stated, refuted). A segment made of a sign and decimal digits is refused with
  status 400 when its value does not fit a 64-bit int: \<^verbatim>\<open>strconv.Atoi\<close> reports a range
  error, and the handler does not tell it from a syntax error.
\<close>

theorem details_signed_out_of_range_counterexample:
  "isDecimalInteger ''-9223372036854775809'' \<and>
   details Map.empty (constWorld ClientError) newResponseWriter
       \<lparr>URL_Path = ''/details/-9223372036854775809'', Header = Map.empty\<rparr> =
     Inr \<lparr>rwHeader = jsonHeader, rwStatus = Some 400,
          rwBody = Marshal_Error ''please provide numeric product id''\<rparr>"
proof -
  have d: "isDecimalInteger ''-9223372036854775809''"
    by (simp add: isDecimalInteger_def isDigit_def byte_def)
  have v: "decimalValue ''-9223372036854775809'' = - 9223372036854775809"
    by (simp add: decimalValue_def digitsValue_def digitVal_def byte_def)
  have "snd (Atoi ''-9223372036854775809'') \<noteq> None"
    by (simp add: Atoi_no_error_iff v inIntRange_def)
  moreover have "last (Split ''/details/-9223372036854775809'' (CHR ''/''))
                   = ''-9223372036854775809''"
    by simp
  ultimately show ?thesis using d by (simp add: details_unfold)
qed

text \<open>
  C9 (amended). When the segment after the last slash is an optional sign followed by
  decimal digits and its value is in the range of a 64-bit int, the handler does not answer
  400: it passes the signed value to \<open>getBookDetails\<close> and answers with status 200 and the
  record that comes back; when the external source is disabled, the id of that record is the
  signed value of the segment.
\<close>

theorem details_signed_id:
  assumes "last (Split (URL_Path req) (CHR ''/'')) = seg"
    and "isDecimalInteger seg"
    and "inIntRange (decimalValue seg)"
  shows "details env world newResponseWriter req =
           (case getBookDetails env world (decimalValue seg) (getForwardHeaders req) of
              Inl p \<Rightarrow> Inl p
            | Inr d \<Rightarrow> Inr \<lparr>rwHeader = jsonHeader, rwStatus = Some 200,
                            rwBody = Marshal_Details d\<rparr>) \<and>
         (Getenv env ''ENABLE_EXTERNAL_BOOK_SERVICE'' \<noteq> ''true'' \<longrightarrow>
            (\<exists>d. details env world newResponseWriter req =
                    Inr \<lparr>rwHeader = jsonHeader, rwStatus = Some 200,
                         rwBody = Marshal_Details d\<rparr> \<and>
                  Id_details d = decimalValue seg))"
proof -
  have a: "Atoi seg = (decimalValue seg, None)"
    using assms(2,3) by (simp add: Atoi_decimal)
  have g: "Getenv env ''ENABLE_EXTERNAL_BOOK_SERVICE'' \<noteq> ''true'' \<Longrightarrow>
           \<exists>d. getBookDetails env world (decimalValue seg) (getForwardHeaders req) = Inr d \<and>
               Id_details d = decimalValue seg"
    by (simp add: getBookDetails_def)
  have u: "details env world newResponseWriter req =
           (case getBookDetails env world (decimalValue seg) (getForwardHeaders req) of
              Inl p \<Rightarrow> Inl p
            | Inr d \<Rightarrow> Inr \<lparr>rwHeader = jsonHeader, rwStatus = Some 200,
                            rwBody = Marshal_Details d\<rparr>)"
    by (simp add: details_unfold assms(1) a)
  have "\<exists>d. details env world newResponseWriter req =
              Inr \<lparr>rwHeader = jsonHeader, rwStatus = Some 200,
                   rwBody = Marshal_Details d\<rparr> \<and>
            Id_details d = decimalValue seg"
    if e: "Getenv env ''ENABLE_EXTERNAL_BOOK_SERVICE'' \<noteq> ''true''"
  proof -
    from g [OF e] obtain d
      where d: "getBookDetails env world (decimalValue seg) (getForwardHeaders req) = Inr d"
        and i: "Id_details d = decimalValue seg" by blast
    have "details env world newResponseWriter req =
            Inr \<lparr>rwHeader = jsonHeader, rwStatus = Some 200, rwBody = Marshal_Details d\<rparr>"
      by (simp only: u d sum.case)
    with i show ?thesis by blast
  qed
  with u show ?thesis by blast
qed

theorem details_signed_id_witness:
  "last (Split ''/details/-5'' (CHR ''/'')) = ''-5'' \<and>
   isDecimalInteger ''-5'' \<and> inIntRange (decimalValue ''-5'') \<and> decimalValue ''-5'' = - 5 \<and>
   (\<exists>d. details Map.empty (constWorld ClientError) newResponseWriter
           \<lparr>URL_Path = ''/details/-5'', Header = Map.empty\<rparr> =
           Inr \<lparr>rwHeader = jsonHeader, rwStatus = Some 200, rwBody = Marshal_Details d\<rparr> \<and>
         Id_details d = - 5)"
proof -
  let ?req = "\<lparr>URL_Path = ''/details/-5'', Header = Map.empty\<rparr>"
  have s: "last (Split (URL_Path ?req) (CHR ''/'')) = ''-5''"
    by simp
  have d: "isDecimalInteger ''-5''"
    by (simp add: isDecimalInteger_def isDigit_def byte_def)
  have v: "decimalValue ''-5'' = - 5"
    by (simp add: decimalValue_def digitsValue_def digitVal_def byte_def)
  have r: "inIntRange (decimalValue ''-5'')"
    by (simp add: v inIntRange_def)
  have e: "Getenv Map.empty ''ENABLE_EXTERNAL_BOOK_SERVICE'' \<noteq> ''true''"
    by (simp add: Getenv_def)
  from details_signed_id [OF s d r, of Map.empty "constWorld ClientError"] e
  have "\<exists>d. details Map.empty (constWorld ClientError) newResponseWriter ?req =
              Inr \<lparr>rwHeader = jsonHeader, rwStatus = Some 200, rwBody = Marshal_Details d\<rparr> \<and>
            Id_details d = decimalValue ''-5''" by blast
  then have "\<exists>d. details Map.empty (constWorld ClientError) newResponseWriter ?req =
              Inr \<lparr>rwHeader = jsonHeader, rwStatus = Some 200, rwBody = Marshal_Details d\<rparr> \<and>
            Id_details d = - 5" by (simp only: v)
  moreover have "last (Split ''/details/-5'' (CHR ''/'')) = ''-5''" by simp
  ultimately show ?thesis using d r v by blast
qed

subsection \<open>The header forwarder\<close>

lemma canonLoop_Cons:
  "canonLoop upper (c # a) = canonByte upper c # canonLoop (canonByte upper c = CHR ''-'') a"
  by (simp only: canonLoop.simps canonByte_def Let_def)

lemma byte_char_of: "n < 256 \<Longrightarrow> byte (char_of n) = n"
  by (simp add: byte_def)

lemma char_of_byte: "char_of (byte c) = c"
  by (simp add: byte_def)

lemma byte_toLower:
  "byte (toLower c) = (if 65 \<le> byte c \<and> byte c \<le> 90 then byte c + 32 else byte c)"
  by (simp add: toLower_def byte_char_of)

lemma byte_canonByte:
  "byte (canonByte u c) =
     (if u \<and> 97 \<le> byte c \<and> byte c \<le> 122 then byte c - 32
      else if \<not> u \<and> 65 \<le> byte c \<and> byte c \<le> 90 then byte c + 32
      else byte c)"
  using byte_less_256 [of c] by (auto simp add: canonByte_def byte_char_of)

lemma char_eqI: "byte c = byte d \<Longrightarrow> c = d"
  by (simp add: byte_def)

lemma toLower_canonByte: "toLower (canonByte u c) = toLower c"
proof (rule char_eqI)
  consider (up) "u" "97 \<le> byte c" "byte c \<le> 122"
    | (low) "\<not> u" "65 \<le> byte c" "byte c \<le> 90"
    | (same) "\<not> (u \<and> 97 \<le> byte c \<and> byte c \<le> 122)"
             "\<not> (\<not> u \<and> 65 \<le> byte c \<and> byte c \<le> 90)"
    by blast
  then show "byte (toLower (canonByte u c)) = byte (toLower c)"
  proof cases
    case up
    then have cb: "byte (canonByte u c) = byte c - 32" by (simp add: byte_canonByte)
    have r: "65 \<le> byte c - 32 \<and> byte c - 32 \<le> 90" using up by linarith
    have n: "\<not> (65 \<le> byte c \<and> byte c \<le> 90)" using up by linarith
    have "byte (toLower (canonByte u c)) = byte c - 32 + 32"
      by (simp only: byte_toLower cb r simp_thms if_True)
    also have "\<dots> = byte c" using up by linarith
    also have "\<dots> = byte (toLower c)" by (simp only: byte_toLower n if_False)
    finally show ?thesis .
  next
    case low
    then have "byte (canonByte u c) = byte c + 32" by (simp add: byte_canonByte)
    then show ?thesis using low by (simp add: byte_toLower)
  next
    case same
    then have "canonByte u c = c" by (auto simp add: canonByte_def)
    then show ?thesis by simp
  qed
qed

lemma canonByte_toLower: "canonByte u (toLower c) = canonByte u c"
proof (cases "65 \<le> byte c \<and> byte c \<le> 90")
  case True
  then have b: "byte (toLower c) = byte c + 32" by (simp add: byte_toLower)
  show ?thesis
  proof (rule char_eqI)
    show "byte (canonByte u (toLower c)) = byte (canonByte u c)"
      using True by (cases u) (simp_all add: byte_canonByte b)
  qed
next
  case False
  then have "toLower c = c" by (simp only: toLower_def if_False)
  then show ?thesis by simp
qed

lemma valid_toLower: "validHeaderFieldByte (toLower c) = validHeaderFieldByte c"
  unfolding validHeaderFieldByte_def byte_toLower by auto

lemma canonLoop_toLower: "canonLoop u (map toLower s) = canonLoop u s"
proof (induction s arbitrary: u)
  case Nil
  show ?case by simp
next
  case (Cons c s)
  show ?case
    by (simp only: list.map canonLoop_Cons canonByte_toLower Cons.IH)
qed

lemma toLower_canonLoop: "map toLower (canonLoop u s) = map toLower s"
proof (induction s arbitrary: u)
  case Nil
  show ?case by simp
next
  case (Cons c s)
  show ?case
    by (simp only: list.map canonLoop_Cons toLower_canonByte Cons.IH)
qed

lemma valid_map_toLower:
  "list_all validHeaderFieldByte (map toLower s) = list_all validHeaderFieldByte s"
  by (induction s) (simp_all add: valid_toLower)

lemma toLower_Canonical: "map toLower (CanonicalMIMEHeaderKey s) = map toLower s"
  by (simp add: CanonicalMIMEHeaderKey_def toLower_canonLoop)

lemma Canonical_eq_iff:
  assumes "list_all validHeaderFieldByte a" and "map toLower a = a"
  shows "CanonicalMIMEHeaderKey k = CanonicalMIMEHeaderKey a \<longleftrightarrow> map toLower k = a"
proof
  assume "CanonicalMIMEHeaderKey k = CanonicalMIMEHeaderKey a"
  then have "map toLower (CanonicalMIMEHeaderKey k) = map toLower (CanonicalMIMEHeaderKey a)"
    by simp
  then show "map toLower k = a" by (simp only: toLower_Canonical assms(2))
next
  assume l: "map toLower k = a"
  have "list_all validHeaderFieldByte k"
    using assms(1) valid_map_toLower [of k] by (simp only: l)
  then have "CanonicalMIMEHeaderKey k = canonLoop True k"
    by (simp add: CanonicalMIMEHeaderKey_def)
  also have "\<dots> = canonLoop True (map toLower k)" by (simp only: canonLoop_toLower)
  also have "\<dots> = canonLoop True a" by (simp only: l)
  also have "\<dots> = CanonicalMIMEHeaderKey a"
    using assms(1) by (simp add: CanonicalMIMEHeaderKey_def)
  finally show "CanonicalMIMEHeaderKey k = CanonicalMIMEHeaderKey a" .
qed

lemma forward_fold:
  "foldl (\<lambda>header item.
            let values = Header_Values h item
            in if length values > 0 then header(item \<mapsto> values) else header) m items name =
     (if name \<in> set items \<and> Header_Values h name \<noteq> [] then Some (Header_Values h name)
      else m name)"
  by (induction items arbitrary: m) (auto simp add: Let_def)

lemma getForwardHeaders_lookup:
  "getForwardHeaders req name =
     (if name \<in> set incomingHeaders \<and> Header_Values (Header req) name \<noteq> []
      then Some (Header_Values (Header req) name) else None)"
  by (simp only: getForwardHeaders_def forward_fold)

lemma inboundHeader_snoc:
  "inboundHeader (lines @ [kv]) = Header_Add (inboundHeader lines) (fst kv) (snd kv)"
  by (simp add: inboundHeader_def split: prod.split)

lemma inboundHeader_lookup:
  "inboundHeader lines K =
     (if filter (\<lambda>kv. CanonicalMIMEHeaderKey (fst kv) = K) lines = [] then None
      else Some (map snd (filter (\<lambda>kv. CanonicalMIMEHeaderKey (fst kv) = K) lines)))"
proof (induction lines rule: rev_induct)
  case Nil
  show ?case by (simp add: inboundHeader_def)
next
  case (snoc kv lines)
  show ?case
  proof (cases "CanonicalMIMEHeaderKey (fst kv) = K")
    case True
    then show ?thesis
      by (simp add: inboundHeader_snoc Header_Add_def Let_def snoc.IH)
  next
    case False
    then show ?thesis
      by (simp add: inboundHeader_snoc Header_Add_def Let_def snoc.IH)
  qed
qed

lemma incomingHeaders_lower:
  "\<forall>a \<in> set incomingHeaders. list_all validHeaderFieldByte a \<and> map toLower a = a"
  by (simp add: incomingHeaders_def validHeaderFieldByte_def toLower_def byte_def)

lemma incomingHeaders_first:
  "list_all (\<lambda>a. a \<noteq> [] \<and> 97 \<le> byte (hd a) \<and> byte (hd a) \<le> 122) incomingHeaders"
  by (simp add: incomingHeaders_def byte_def)

lemma incomingHeaders_not_canonical:
  "\<forall>a \<in> set incomingHeaders. CanonicalMIMEHeaderKey a \<noteq> a"
proof
  fix a assume a: "a \<in> set incomingHeaders"
  then have v: "list_all validHeaderFieldByte a" using incomingHeaders_lower by blast
  from a incomingHeaders_first
  have f: "a \<noteq> [] \<and> 97 \<le> byte (hd a) \<and> byte (hd a) \<le> 122"
    by (simp only: list_all_iff) blast
  then obtain c r where e: "a = c # r" by (cases a) simp_all
  with f have l: "97 \<le> byte c \<and> byte c \<le> 122" by simp
  have "byte (canonByte True c) = byte c - 32" using l by (simp add: byte_canonByte)
  then have "byte (canonByte True c) \<noteq> byte c" using l by linarith
  then have n: "canonByte True c \<noteq> c" by auto
  have "CanonicalMIMEHeaderKey a = canonByte True c # canonLoop (canonByte True c = CHR ''-'') r"
    using v by (simp only: CanonicalMIMEHeaderKey_def e canonLoop_Cons if_True)
  with n show "CanonicalMIMEHeaderKey a \<noteq> a" by (simp add: e)
qed

lemma Header_Values_inbound:
  assumes "a \<in> set incomingHeaders"
  shows "Header_Values (inboundHeader lines) a = wireValues lines a"
proof -
  have w: "list_all validHeaderFieldByte a" "map toLower a = a"
    using assms incomingHeaders_lower by blast+
  have "(\<lambda>kv. CanonicalMIMEHeaderKey (fst kv) = CanonicalMIMEHeaderKey a) =
        (\<lambda>kv::string \<times> string. map toLower (fst kv) = a)"
    by (simp only: Canonical_eq_iff [OF w])
  then show ?thesis
    by (simp add: Header_Values_def inboundHeader_lookup wireValues_def)
qed

lemma wireValues_nonempty:
  "wireValues lines name \<noteq> [] \<longleftrightarrow> (\<exists>kv \<in> set lines. map toLower (fst kv) = name)"
  by (simp add: wireValues_def filter_empty_conv)

text \<open>
  C4. For every request, the result of \<open>getForwardHeaders\<close> holds under a name exactly the
  values that \<^verbatim>\<open>Header.Values\<close> gives for it, when the name is in the allow-list and has
  at least one value, and nothing otherwise. For the header map of an inbound request,
  built by the server from the header lines, these are the values of the lines whose name
  equals the allow-listed name up to the case of letters, all of them and in the order of
  the lines; a name outside the allow-list is never in the result, and an allow-listed name
  without a line is left out.
\<close>

theorem getForwardHeaders_allow_list:
  "getForwardHeaders req name =
     (if name \<in> set incomingHeaders \<and> Header_Values (Header req) name \<noteq> []
      then Some (Header_Values (Header req) name) else None) \<and>
   (Header req = inboundHeader lines \<longrightarrow>
      getForwardHeaders req name =
        (if name \<in> set incomingHeaders \<and> wireValues lines name \<noteq> []
         then Some (wireValues lines name) else None))"
  by (auto simp add: getForwardHeaders_lookup Header_Values_inbound)

text \<open>
  C10. The keys of the result of \<open>getForwardHeaders\<close> are strings of \<open>incomingHeaders\<close> as
  they are written there: in lower case and not in the canonical form of net/http. For an
  inbound request they are exactly the allow-listed names that some header line carries in
  any capitalisation.
\<close>

theorem getForwardHeaders_keys:
  "dom (getForwardHeaders req) \<subseteq> set incomingHeaders \<and>
   (\<forall>name \<in> dom (getForwardHeaders req).
      map toLower name = name \<and> CanonicalMIMEHeaderKey name \<noteq> name) \<and>
   (Header req = inboundHeader lines \<longrightarrow>
      dom (getForwardHeaders req) =
        {name \<in> set incomingHeaders. \<exists>kv \<in> set lines. map toLower (fst kv) = name})"
proof -
  have s: "dom (getForwardHeaders req) \<subseteq> set incomingHeaders"
    by (auto simp add: getForwardHeaders_lookup split: if_splits)
  then have l: "\<forall>name \<in> dom (getForwardHeaders req).
                  map toLower name = name \<and> CanonicalMIMEHeaderKey name \<noteq> name"
    using incomingHeaders_lower incomingHeaders_not_canonical by blast
  have "dom (getForwardHeaders req) =
          {name \<in> set incomingHeaders. \<exists>kv \<in> set lines. map toLower (fst kv) = name}"
    if h: "Header req = inboundHeader lines"
  proof -
    have "\<And>name. name \<in> dom (getForwardHeaders req) \<longleftrightarrow>
            name \<in> set incomingHeaders \<and> wireValues lines name \<noteq> []"
      by (auto simp add: getForwardHeaders_lookup h Header_Values_inbound split: if_splits)
    then show ?thesis by (auto simp add: wireValues_nonempty)
  qed
  with s l show ?thesis by blast
qed

lemma toLower_eq_iff:
  "toLower c = d \<longleftrightarrow>
     byte d = (if 65 \<le> byte c \<and> byte c \<le> 90 then byte c + 32 else byte c)"
proof -
  have "toLower c = d \<longleftrightarrow> byte (toLower c) = byte d" by (auto intro: char_eqI)
  also have "\<dots> \<longleftrightarrow> byte d = byte (toLower c)" by (rule eq_commute)
  finally show ?thesis by (simp only: byte_toLower)
qed

lemma sample_lower:
  "map toLower ''X-Request-ID'' = ''x-request-id''"
  "map toLower ''Accept'' = ''accept''"
  "map toLower ''x-request-id'' = ''x-request-id''"
  "map toLower ''User-Agent'' = ''user-agent''"
  by (simp_all add: toLower_eq_iff byte_def)

theorem getForwardHeaders_allow_list_witness:
  "Header sampleRequest = inboundHeader sampleLines \<and>
   getForwardHeaders sampleRequest ''x-request-id'' = Some [''a'', ''b''] \<and>
   getForwardHeaders sampleRequest ''user-agent'' = Some [''curl''] \<and>
   getForwardHeaders sampleRequest ''accept'' = None \<and>
   getForwardHeaders sampleRequest ''traceparent'' = None"
proof -
  have h: "Header sampleRequest = inboundHeader sampleLines"
    by (simp add: sampleRequest_def)
  have w: "wireValues sampleLines ''x-request-id'' = [''a'', ''b'']"
          "wireValues sampleLines ''user-agent'' = [''curl'']"
          "wireValues sampleLines ''traceparent'' = []"
    by (simp_all add: wireValues_def sampleLines_def toLower_eq_iff byte_def)
  have m: "''x-request-id'' \<in> set incomingHeaders" "''user-agent'' \<in> set incomingHeaders"
          "''accept'' \<notin> set incomingHeaders"
    by (simp_all add: incomingHeaders_def)
  have t: "''traceparent'' \<in> set incomingHeaders"
    by (simp add: incomingHeaders_def)
  note r = getForwardHeaders_allow_list [THEN conjunct2, THEN mp, OF h]
  have "getForwardHeaders sampleRequest ''x-request-id'' = Some [''a'', ''b'']"
    by (simp only: r [of "''x-request-id''"] w m) simp
  moreover have "getForwardHeaders sampleRequest ''user-agent'' = Some [''curl'']"
    by (simp only: r [of "''user-agent''"] w m) simp
  moreover have "getForwardHeaders sampleRequest ''accept'' = None"
    using m(3) by (simp only: r [of "''accept''"]) simp
  moreover have "getForwardHeaders sampleRequest ''traceparent'' = None"
    by (simp only: r [of "''traceparent''"] w t) simp
  ultimately show ?thesis using h by blast
qed

theorem getForwardHeaders_keys_witness:
  "Header sampleRequest = inboundHeader sampleLines \<and>
   ''x-request-id'' \<in> dom (getForwardHeaders sampleRequest) \<and>
   ''user-agent'' \<in> dom (getForwardHeaders sampleRequest) \<and>
   ''X-Request-Id'' \<notin> dom (getForwardHeaders sampleRequest) \<and>
   ''X-Request-ID'' \<notin> dom (getForwardHeaders sampleRequest) \<and>
   ''User-Agent'' \<notin> dom (getForwardHeaders sampleRequest)"
proof -
  have h: "Header sampleRequest = inboundHeader sampleLines"
    by (simp add: sampleRequest_def)
  have n: "''X-Request-Id'' \<notin> set incomingHeaders" "''X-Request-ID'' \<notin> set incomingHeaders"
          "''User-Agent'' \<notin> set incomingHeaders"
    by (simp_all add: incomingHeaders_def)
  have m: "''x-request-id'' \<in> set incomingHeaders" "''user-agent'' \<in> set incomingHeaders"
    by (simp_all add: incomingHeaders_def)
  have l: "\<exists>kv \<in> set sampleLines. map toLower (fst kv) = ''x-request-id''"
          "\<exists>kv \<in> set sampleLines. map toLower (fst kv) = ''user-agent''"
    by (simp_all add: sampleLines_def toLower_eq_iff byte_def)
  from getForwardHeaders_keys [of sampleRequest sampleLines] h
  have s: "dom (getForwardHeaders sampleRequest) \<subseteq> set incomingHeaders"
    and d: "dom (getForwardHeaders sampleRequest) =
          {name \<in> set incomingHeaders. \<exists>kv \<in> set sampleLines. map toLower (fst kv) = name}"
    by blast+
  from m l have "''x-request-id'' \<in> dom (getForwardHeaders sampleRequest)"
    and "''user-agent'' \<in> dom (getForwardHeaders sampleRequest)"
    unfolding d by blast+
  with h n s show ?thesis by blast
qed

end
